theory Spec2Isabelle
  imports Main "HOL-Library.Word"
begin

section \<open>Result codes and the FAT library\<close>

text \<open>
  Modelled from the spec: the declaration of \<open>FRESULT\<close> (ff.h) is not among the
  sources. Section 6 of the specification lists the enumeration: one value for success
  and the failure kinds disk error, not-ready, no-file, invalid-name, denied, exists,
  invalid-object, write-protected, invalid-drive, not-enabled, no-filesystem, timeout,
  locked, too-many-open-files and invalid-parameter.
\<close>

datatype FRESULT =
    FR_OK
  | FR_DISK_ERR
  | FR_NOT_READY
  | FR_NO_FILE
  | FR_INVALID_NAME
  | FR_DENIED
  | FR_EXIST
  | FR_INVALID_OBJECT
  | FR_WRITE_PROTECTED
  | FR_INVALID_DRIVE
  | FR_NOT_ENABLED
  | FR_NO_FILESYSTEM
  | FR_TIMEOUT
  | FR_LOCKED
  | FR_TOO_MANY_OPEN_FILES
  | FR_INVALID_PARAMETER

text \<open>
  The three mode arguments \<open>sd_functions.c\<close> passes to \<open>f_open\<close>:
  \<open>FA_READ\<close>, \<open>FA_CREATE_ALWAYS | FA_WRITE\<close> and \<open>FA_OPEN_ALWAYS | FA_WRITE\<close>.
\<close>

datatype open_mode = FA_READ | FA_CREATE_ALWAYS_WRITE | FA_OPEN_ALWAYS_WRITE

text \<open>
  The library calls the operations make, with the arguments that matter: the file
  name, the offset or the number of bytes requested, and for \<open>f_mount\<close> whether a
  filesystem object is given (\<open>sd_mount\<close>) or \<open>NULL\<close> (\<open>sd_unmount\<close>).
\<close>

datatype lib_call =
    Call_open string open_mode
  | Call_lseek string nat
  | Call_write string nat
  | Call_read string nat
  | Call_gets string
  | Call_close string
  | Call_mount bool
  | Call_getfree
  | Call_unlink string
  | Call_rename string string
  | Call_mkdir string

text \<open>
  What the card and the library do is not decided by \<open>sd_functions.c\<close>. The
  volume carries a script with one entry per library call still to come: \<open>Code r\<close>
  makes the call return \<open>r\<close> (\<open>Code FR_OK\<close>: the call runs normally), and
  \<open>Full n\<close> lets the call run normally but a write stores \<open>n\<close> bytes at most
  (the volume is full: \<open>f_write\<close> then reports success and a short count). A call
  made when the script is used up runs normally.
\<close>

datatype outcome = Code FRESULT | Full nat

fun fault_of :: "outcome \<Rightarrow> FRESULT" where
  "fault_of (Code r) = r"
| "fault_of (Full n) = FR_OK"

definition no_fault :: "outcome \<Rightarrow> bool" where
  "no_fault oc = (fault_of oc = FR_OK)"

text \<open>The file object \<open>FIL\<close>: the open file's name and its read/write pointer.\<close>

record FIL =
  fname :: string
  fptr :: nat

text \<open>
  The mounted volume: the contents of its files by name, the script, and the log of
  the library calls made so far, oldest first.
\<close>

record fatfs =
  files :: "string \<rightharpoonup> string"
  script :: "outcome list"
  calls :: "lib_call list"

definition lib_step :: "lib_call \<Rightarrow> fatfs \<Rightarrow> outcome \<times> fatfs" where
  "lib_step c st =
     (case script st of
        [] \<Rightarrow> (Code FR_OK, st\<lparr>calls := calls st @ [c]\<rparr>)
      | oc # ocs \<Rightarrow> (oc, st\<lparr>script := ocs, calls := calls st @ [c]\<rparr>))"

text \<open>
  Modelled from the spec: the FAT library (ff.c) is an external collaborator whose code
  is not among the sources. Each call returns a result code of the enumeration; open
  for reading needs the file to exist, \<open>FA_CREATE_ALWAYS\<close> creates or truncates,
  \<open>FA_OPEN_ALWAYS\<close> opens the file and creates it if absent; a write stores the
  bytes at the file pointer and reports their number; a read delivers the bytes at the
  file pointer, as many as requested or as the file still has.
\<close>

definition f_open :: "string \<Rightarrow> open_mode \<Rightarrow> fatfs \<Rightarrow> (FRESULT \<times> FIL) \<times> fatfs" where
  "f_open path mode st =
     (case lib_step (Call_open path mode) st of (oc, st1) \<Rightarrow>
        let fp = \<lparr>fname = path, fptr = 0\<rparr> in
        if fault_of oc \<noteq> FR_OK then ((fault_of oc, fp), st1)
        else (case mode of
            FA_READ \<Rightarrow>
              (case files st1 path of
                 None \<Rightarrow> ((FR_NO_FILE, fp), st1)
               | Some c \<Rightarrow> ((FR_OK, fp), st1))
          | FA_CREATE_ALWAYS_WRITE \<Rightarrow> ((FR_OK, fp), st1\<lparr>files := (files st1)(path \<mapsto> [])\<rparr>)
          | FA_OPEN_ALWAYS_WRITE \<Rightarrow>
              (case files st1 path of
                 None \<Rightarrow> ((FR_OK, fp), st1\<lparr>files := (files st1)(path \<mapsto> [])\<rparr>)
               | Some c \<Rightarrow> ((FR_OK, fp), st1))))"

definition f_size :: "FIL \<Rightarrow> fatfs \<Rightarrow> nat" where
  "f_size fp st = (case files st (fname fp) of None \<Rightarrow> 0 | Some c \<Rightarrow> length c)"

definition f_lseek :: "FIL \<Rightarrow> nat \<Rightarrow> fatfs \<Rightarrow> FRESULT \<times> FIL \<times> fatfs" where
  "f_lseek fp ofs st =
     (case lib_step (Call_lseek (fname fp) ofs) st of (oc, st1) \<Rightarrow>
        if fault_of oc \<noteq> FR_OK then (fault_of oc, fp, st1)
        else (FR_OK, fp\<lparr>fptr := ofs\<rparr>, st1))"

text \<open>
  \<open>f_write fp buff btw\<close> returns the result code and the count \<open>bw\<close>. The bytes
  go over the file's contents from the file pointer on.
\<close>

definition store_at :: "nat \<Rightarrow> string \<Rightarrow> string \<Rightarrow> string" where
  "store_at pos d c = take pos c @ d @ drop (pos + length d) c"

definition f_write :: "FIL \<Rightarrow> string \<Rightarrow> nat \<Rightarrow> fatfs \<Rightarrow> (FRESULT \<times> nat) \<times> FIL \<times> fatfs" where
  "f_write fp buff btw st =
     (case lib_step (Call_write (fname fp) btw) st of (oc, st1) \<Rightarrow>
        if fault_of oc \<noteq> FR_OK then ((fault_of oc, 0), fp, st1)
        else (case files st1 (fname fp) of
            None \<Rightarrow> ((FR_INVALID_OBJECT, 0), fp, st1)
          | Some c \<Rightarrow>
              let d = (case oc of Code r \<Rightarrow> take btw buff | Full n \<Rightarrow> take (min n btw) buff) in
              ((FR_OK, length d), fp\<lparr>fptr := fptr fp + length d\<rparr>,
               st1\<lparr>files := (files st1)(fname fp \<mapsto> store_at (fptr fp) d c)\<rparr>)))"

text \<open>
  The caller's buffer is the memory from the address \<open>buffer\<close> on, one byte per
  index; nothing in the model knows where the caller's array ends, so a store past it
  shows as a store at a large index.
\<close>

type_synonym buffer = "nat \<Rightarrow> char"

definition poke :: "buffer \<Rightarrow> string \<Rightarrow> buffer" where
  "poke buf d = (\<lambda>i. if i < length d then d ! i else buf i)"

text \<open>\<open>f_read fp buff btr\<close> returns the result code, the count \<open>br\<close> and the buffer.\<close>

definition f_read :: "FIL \<Rightarrow> buffer \<Rightarrow> nat \<Rightarrow> fatfs \<Rightarrow> (FRESULT \<times> nat \<times> buffer) \<times> FIL \<times> fatfs" where
  "f_read fp buff btr st =
     (case lib_step (Call_read (fname fp) btr) st of (oc, st1) \<Rightarrow>
        if fault_of oc \<noteq> FR_OK then ((fault_of oc, 0, buff), fp, st1)
        else (case files st1 (fname fp) of
            None \<Rightarrow> ((FR_INVALID_OBJECT, 0, buff), fp, st1)
          | Some c \<Rightarrow>
              let d = take btr (drop (fptr fp) c) in
              ((FR_OK, length d, poke buff d), fp\<lparr>fptr := fptr fp + length d\<rparr>, st1)))"

definition f_close :: "FIL \<Rightarrow> fatfs \<Rightarrow> FRESULT \<times> fatfs" where
  "f_close fp st = (case lib_step (Call_close (fname fp)) st of (oc, st1) \<Rightarrow> (fault_of oc, st1))"

text \<open>
  Modelled from the spec: the library's calls on the volume and on directory entries
  (ff.c, not among the sources). \<open>SDPath\<close> names the one volume of the model and is
  left out. Whether the volume is mounted, and its directories, are not part of the
  model: \<open>f_mount\<close>, \<open>f_getfree\<close> and \<open>f_mkdir\<close> return the code the script
  gives. The cluster counts \<open>f_getfree\<close> delivers feed a \<open>printf\<close> only and are
  left out with it. \<open>f_unlink\<close> removes the named file and needs it to exist;
  \<open>f_rename\<close> needs the old name to exist and the new one to be free; \<open>f_mkdir\<close>
  needs the name not to be a file's.
\<close>

definition f_mount :: "bool \<Rightarrow> fatfs \<Rightarrow> FRESULT \<times> fatfs" where
  "f_mount fs st = (case lib_step (Call_mount fs) st of (oc, st1) \<Rightarrow> (fault_of oc, st1))"

definition f_getfree :: "fatfs \<Rightarrow> FRESULT \<times> fatfs" where
  "f_getfree st = (case lib_step Call_getfree st of (oc, st1) \<Rightarrow> (fault_of oc, st1))"

definition f_unlink :: "string \<Rightarrow> fatfs \<Rightarrow> FRESULT \<times> fatfs" where
  "f_unlink path st =
     (case lib_step (Call_unlink path) st of (oc, st1) \<Rightarrow>
        if fault_of oc \<noteq> FR_OK then (fault_of oc, st1)
        else (case files st1 path of
            None \<Rightarrow> (FR_NO_FILE, st1)
          | Some c \<Rightarrow> (FR_OK, st1\<lparr>files := (files st1)(path := None)\<rparr>)))"

definition f_rename :: "string \<Rightarrow> string \<Rightarrow> fatfs \<Rightarrow> FRESULT \<times> fatfs" where
  "f_rename path_old path_new st =
     (case lib_step (Call_rename path_old path_new) st of (oc, st1) \<Rightarrow>
        if fault_of oc \<noteq> FR_OK then (fault_of oc, st1)
        else (case files st1 path_old of
            None \<Rightarrow> (FR_NO_FILE, st1)
          | Some c \<Rightarrow>
              (case files st1 path_new of
                 Some c' \<Rightarrow> (FR_EXIST, st1)
               | None \<Rightarrow> (FR_OK, st1\<lparr>files := (files st1)(path_old := None, path_new \<mapsto> c)\<rparr>))))"

definition f_mkdir :: "string \<Rightarrow> fatfs \<Rightarrow> FRESULT \<times> fatfs" where
  "f_mkdir path st =
     (case lib_step (Call_mkdir path) st of (oc, st1) \<Rightarrow>
        if fault_of oc \<noteq> FR_OK then (fault_of oc, st1)
        else (case files st1 path of
            None \<Rightarrow> (FR_OK, st1)
          | Some c \<Rightarrow> (FR_EXIST, st1)))"

section \<open>Writing and appending\<close>

text \<open>
  A \<open>const char *\<close> argument is the bytes at the address; the text it denotes ends
  before the first NUL byte (at the end of the list when it holds none).
\<close>

definition NUL :: char where
  "NUL = CHR 0x00"

definition c_str :: "string \<Rightarrow> string" where
  "c_str s = takeWhile (\<lambda>c. c \<noteq> NUL) s"

definition strlen :: "string \<Rightarrow> nat" where
  "strlen s = length (c_str s)"

text \<open>
  \<open>sd_write_file\<close>: the diagnostic \<open>printf\<close> is left out (its text is no part
  of the result). The result of \<open>f_close\<close> is dropped, as in the source.
\<close>

definition sd_write_file :: "string \<Rightarrow> string \<Rightarrow> fatfs \<Rightarrow> FRESULT \<times> fatfs" where
  "sd_write_file filename text st =
     (case f_open filename FA_CREATE_ALWAYS_WRITE st of ((res, file), st1) \<Rightarrow>
        if res \<noteq> FR_OK then (res, st1)
        else (case f_write file text (strlen text) st1 of ((res, bw), file, st2) \<Rightarrow>
          (case f_close file st2 of (_, st3) \<Rightarrow>
            (if res = FR_OK \<and> bw = strlen text then FR_OK else FR_DISK_ERR, st3))))"

definition sd_append_file :: "string \<Rightarrow> string \<Rightarrow> fatfs \<Rightarrow> FRESULT \<times> fatfs" where
  "sd_append_file filename text st =
     (case f_open filename FA_OPEN_ALWAYS_WRITE st of ((res, file), st1) \<Rightarrow>
        if res \<noteq> FR_OK then (res, st1)
        else (case f_lseek file (f_size file st1) st1 of (res, file, st2) \<Rightarrow>
          if res \<noteq> FR_OK then (case f_close file st2 of (_, st3) \<Rightarrow> (res, st3))
          else (case f_write file text (strlen text) st2 of ((res, bw), file, st3) \<Rightarrow>
            (case f_close file st3 of (_, st4) \<Rightarrow>
              (if res = FR_OK \<and> bw = strlen text then FR_OK else FR_DISK_ERR, st4)))))"

section \<open>Reading into a buffer\<close>

text \<open>
  \<open>sd_read_file\<close> returns the result code, \<open>*bytes_read\<close> and the buffer.
  \<open>bufsize\<close> is a \<open>UINT\<close>, 32 bits wide on this target, and \<open>bufsize - 1\<close> is
  computed in that type. \<open>*bytes_read\<close> is set to 0 first and then left to
  \<open>f_read\<close>.
\<close>

definition sd_read_file :: "string \<Rightarrow> buffer \<Rightarrow> 32 word \<Rightarrow> fatfs \<Rightarrow> (FRESULT \<times> nat \<times> buffer) \<times> fatfs" where
  "sd_read_file filename buffer bufsize st =
     (case f_open filename FA_READ st of ((res, file), st1) \<Rightarrow>
        if res \<noteq> FR_OK then ((res, 0, buffer), st1)
        else (case f_read file buffer (unat (bufsize - 1)) st1 of ((res, bytes_read, buffer), file, st2) \<Rightarrow>
          if res \<noteq> FR_OK then (case f_close file st2 of (_, st3) \<Rightarrow> ((res, bytes_read, buffer), st3))
          else (case f_close file st2 of (res, st3) \<Rightarrow>
            if res \<noteq> FR_OK then ((res, bytes_read, buffer(bytes_read := NUL)), st3)
            else ((FR_OK, bytes_read, buffer(bytes_read := NUL)), st3))))"

text \<open>The text a buffer of \<open>n\<close> bytes holds: its bytes before the first NUL.\<close>

definition buffer_text :: "nat \<Rightarrow> buffer \<Rightarrow> string" where
  "buffer_text n buf = c_str (map buf [0..<n])"

section \<open>The volume and its directory entries\<close>

text \<open>
  \<open>sd_get_space_kb\<close>, \<open>sd_mount\<close>, \<open>sd_unmount\<close>, \<open>sd_delete_file\<close>,
  \<open>sd_rename_file\<close> and \<open>sd_create_directory\<close>, each without its \<open>printf\<close>.
  \<open>sd_mount\<close> calls \<open>sd_get_space_kb\<close> after a successful \<open>f_mount\<close> and
  drops its result; \<open>BSP_SD_GetCardInfo\<close> there is a call of the card driver that
  returns no result code and fills the record the \<open>printf\<close>s read.
\<close>

definition sd_get_space_kb :: "fatfs \<Rightarrow> FRESULT \<times> fatfs" where
  "sd_get_space_kb st =
     (case f_getfree st of (res, st1) \<Rightarrow>
        if res \<noteq> FR_OK then (res, st1) else (FR_OK, st1))"

definition sd_mount :: "fatfs \<Rightarrow> FRESULT \<times> fatfs" where
  "sd_mount st =
     (case f_mount True st of (res, st1) \<Rightarrow>
        if res = FR_OK then (case sd_get_space_kb st1 of (_, st2) \<Rightarrow> (FR_OK, st2))
        else (res, st1))"

definition sd_unmount :: "fatfs \<Rightarrow> FRESULT \<times> fatfs" where
  "sd_unmount st = (case f_mount False st of (res, st1) \<Rightarrow> (res, st1))"

definition sd_delete_file :: "string \<Rightarrow> fatfs \<Rightarrow> FRESULT \<times> fatfs" where
  "sd_delete_file filename st = (case f_unlink filename st of (res, st1) \<Rightarrow> (res, st1))"

definition sd_rename_file :: "string \<Rightarrow> string \<Rightarrow> fatfs \<Rightarrow> FRESULT \<times> fatfs" where
  "sd_rename_file oldname newname st =
     (case f_rename oldname newname st of (res, st1) \<Rightarrow> (res, st1))"

definition sd_create_directory :: "string \<Rightarrow> fatfs \<Rightarrow> FRESULT \<times> fatfs" where
  "sd_create_directory path st = (case f_mkdir path st of (res, st1) \<Rightarrow> (res, st1))"

section \<open>Reading a CSV file\<close>

record CsvRecord =
  field1 :: string
  field2 :: string
  csv_value :: "32 word"

text \<open>
  \<open>field1\<close> and \<open>field2\<close> are arrays of 32 bytes, \<open>csv_value\<close> is the
  member \<open>value\<close>, a 32-bit \<open>int\<close> (read it with \<open>sint\<close>). The caller's array \<open>records\<close> is the memory from its address
  on, one record per index. \<open>written\<close> lists the indices of the records the parser
  has stored into, oldest first.
\<close>

record csv_state =
  records :: "int \<Rightarrow> CsvRecord"
  record_count :: int
  written :: "int list"

text \<open>
  The C library's \<open>strtok\<close> with the one delimiter \<open>","\<close>: skip the commas in
  front; no byte left is \<open>NULL\<close>; else the token runs to the next comma (which
  becomes its terminator) or to the end, and the scan resumes behind it. The result is
  the token and the text left for the next call, \<open>strtok(NULL, ",")\<close>.
\<close>

definition strtok :: "string \<Rightarrow> (string \<times> string) option" where
  "strtok s =
     (let s1 = dropWhile (\<lambda>c. c = CHR '','') s in
      if s1 = [] then None
      else Some (takeWhile (\<lambda>c. c \<noteq> CHR '','') s1, drop 1 (dropWhile (\<lambda>c. c \<noteq> CHR '','') s1)))"

text \<open>
  \<open>strncpy(dst, src, n)\<close> stores exactly \<open>n\<close> bytes: those of \<open>src\<close>, at most
  \<open>n\<close> of them, and NUL bytes for the rest. The result is what \<open>dst\<close> holds then.
\<close>

definition strncpy :: "string \<Rightarrow> nat \<Rightarrow> string" where
  "strncpy src n = take n src @ replicate (n - length src) NUL"

text \<open>
  \<open>atoi(s)\<close> is \<open>(int) strtol(s, NULL, 10)\<close> in the C library. \<open>decimal\<close> is the
  number the text starts with: white space, a sign, decimal digits; a text with no digit
  there is 0. \<open>strtol\<close> returns it as a \<open>long\<close>, or \<open>LONG_MAX\<close> or \<open>LONG_MIN\<close>
  when it does not fit; \<open>long_bits\<close> is the width of \<open>long\<close> on the platform
  (32 on the target, 64 on an LP64 host). The conversion to the 32-bit \<open>int\<close> keeps
  the low 32 bits.
\<close>

definition isspace :: "char \<Rightarrow> bool" where
  "isspace c = (c \<in> set [CHR '' '', CHR 0x09, CHR 0x0A, CHR 0x0B, CHR 0x0C, CHR 0x0D])"

definition isdigit :: "char \<Rightarrow> bool" where
  "isdigit c = (48 \<le> (of_char c :: nat) \<and> (of_char c :: nat) \<le> 57)"

fun digits_value :: "int \<Rightarrow> string \<Rightarrow> int" where
  "digits_value acc [] = acc"
| "digits_value acc (c # cs) =
     (if isdigit c then digits_value (acc * 10 + (of_char c - 48)) cs else acc)"

definition decimal :: "string \<Rightarrow> int" where
  "decimal s =
     (case dropWhile isspace s of
        [] \<Rightarrow> 0
      | c # cs \<Rightarrow>
          if c = CHR ''-'' then - digits_value 0 cs
          else if c = CHR ''+'' then digits_value 0 cs
          else digits_value 0 (c # cs))"

definition strtol :: "nat \<Rightarrow> string \<Rightarrow> int" where
  "strtol long_bits s =
     max (- (2 ^ (long_bits - 1))) (min (2 ^ (long_bits - 1) - 1) (decimal s))"

definition atoi :: "nat \<Rightarrow> string \<Rightarrow> 32 word" where
  "atoi long_bits s = word_of_int (strtol long_bits s)"

definition set_field1 :: "int \<Rightarrow> string \<Rightarrow> csv_state \<Rightarrow> csv_state" where
  "set_field1 i v s =
     s\<lparr>records := (records s)(i := (records s i)\<lparr>field1 := v\<rparr>), written := written s @ [i]\<rparr>"

definition set_field2 :: "int \<Rightarrow> string \<Rightarrow> csv_state \<Rightarrow> csv_state" where
  "set_field2 i v s =
     s\<lparr>records := (records s)(i := (records s i)\<lparr>field2 := v\<rparr>), written := written s @ [i]\<rparr>"

definition set_value :: "int \<Rightarrow> 32 word \<Rightarrow> csv_state \<Rightarrow> csv_state" where
  "set_value i v s =
     s\<lparr>records := (records s)(i := (records s i)\<lparr>csv_value := v\<rparr>), written := written s @ [i]\<rparr>"

text \<open>
  The body of the loop of \<open>sd_read_csv\<close> for one line that \<open>f_gets\<close> delivered;
  each \<open>continue\<close> leaves with the state as it is then.
\<close>

definition csv_line :: "nat \<Rightarrow> string \<Rightarrow> csv_state \<Rightarrow> csv_state" where
  "csv_line long_bits line s =
     (case strtok (c_str line) of
        None \<Rightarrow> s
      | Some (token, rest) \<Rightarrow>
          let s1 = set_field1 (record_count s) (strncpy token 32) s in
          (case strtok rest of
             None \<Rightarrow> s1
           | Some (token, rest) \<Rightarrow>
               let s2 = set_field2 (record_count s1) (strncpy token 32) s1;
                   s3 = (case strtok rest of
                           Some (token, rest) \<Rightarrow> set_value (record_count s2) (atoi long_bits token) s2
                         | None \<Rightarrow> set_value (record_count s2) 0 s2)
               in s3\<lparr>record_count := record_count s3 + 1\<rparr>))"

text \<open>
  Modelled from the spec: \<open>f_gets\<close> is the library's line-read-until-newline (ff.c, not
  among the sources). It delivers the bytes from the file pointer up to and with the
  next line feed, \<open>len - 1\<close> of them at most, and \<open>NULL\<close> when it reads no byte (the
  end of the file, or a failing read). No byte is dropped on the way: a carriage return
  is delivered like any other byte.
\<close>

fun gets_line :: "nat \<Rightarrow> string \<Rightarrow> string" where
  "gets_line 0 cs = []"
| "gets_line (Suc n) [] = []"
| "gets_line (Suc n) (c # cs) = (if c = CHR 0x0A then [c] else c # gets_line n cs)"

definition f_gets :: "nat \<Rightarrow> FIL \<Rightarrow> fatfs \<Rightarrow> string option \<times> FIL \<times> fatfs" where
  "f_gets len fp st =
     (case lib_step (Call_gets (fname fp)) st of (oc, st1) \<Rightarrow>
        if fault_of oc \<noteq> FR_OK then (None, fp, st1)
        else (case files st1 (fname fp) of
            None \<Rightarrow> (None, fp, st1)
          | Some c \<Rightarrow>
              let l = gets_line (len - 1) (drop (fptr fp) c) in
              if l = [] then (None, fp, st1)
              else (Some l, fp\<lparr>fptr := fptr fp + length l\<rparr>, st1)))"

text \<open>
  The loop \<open>while (f_gets(line, sizeof(line), &file) && *record_count < max_records)\<close>:
  \<open>f_gets\<close> is called first, the count is compared after it.
\<close>

function csv_loop :: "nat \<Rightarrow> FIL \<Rightarrow> int \<Rightarrow> csv_state \<Rightarrow> fatfs \<Rightarrow> csv_state \<times> FIL \<times> fatfs" where
  "csv_loop long_bits fp max_records s st =
     (case f_gets 128 fp st of
        (None, fp', st') \<Rightarrow> (s, fp', st')
      | (Some line, fp', st') \<Rightarrow>
          if record_count s < max_records then csv_loop long_bits fp' max_records (csv_line long_bits line s) st'
          else (s, fp', st'))"
  by pat_completeness auto

termination csv_loop
proof (relation "measure (\<lambda>(w, fp, m, s, st). f_size fp st - fptr fp)")
  show "wf (measure (\<lambda>(w, fp, m, s, st). f_size fp st - fptr fp))" by simp
next
  fix fp st x y l fp' st' and long_bits :: nat and max_records :: int and s :: csv_state
  assume "(x, y) = f_gets 128 fp st" "x = Some l" "(fp', st') = y"
  then have "f_gets 128 fp st = (Some l, fp', st')" by simp
  then obtain c where c: "files st (fname fp) = Some c"
    and l: "l = gets_line (128 - 1) (drop (fptr fp) c)" "l \<noteq> []"
    and fp': "fp' = fp\<lparr>fptr := fptr fp + length l\<rparr>"
    and st': "files st' = files st"
    by (auto simp: f_gets_def lib_step_def Let_def split: list.splits if_splits option.splits)
  have le: "length (gets_line n cs) \<le> length cs" for n cs
    by (induction n cs rule: gets_line.induct) auto
  have "length l \<le> length c - fptr fp"
    using le [of "128 - 1" "drop (fptr fp) c"] l by simp
  moreover have "0 < length l" using l by simp
  ultimately have "length c - (fptr fp + length l) < length c - fptr fp" by arith
  then have "f_size fp' st' - fptr fp' < f_size fp st - fptr fp"
    using c fp' st' by (simp add: f_size_def)
  then show "((long_bits, fp', max_records, csv_line long_bits l s, st'), long_bits, fp, max_records, s, st)
      \<in> measure (\<lambda>(w, fp, m, s, st). f_size fp st - fptr fp)"
    by simp
qed

text \<open>
  \<open>sd_read_csv\<close> returns the result code and the parser's state: the caller's
  records, \<open>*record_count\<close> and the indices stored into. The result of \<open>f_close\<close>
  is dropped, and the \<open>printf\<close> of the parsed records is left out.
\<close>

definition sd_read_csv :: "nat \<Rightarrow> string \<Rightarrow> (int \<Rightarrow> CsvRecord) \<Rightarrow> int \<Rightarrow> fatfs \<Rightarrow> (FRESULT \<times> csv_state) \<times> fatfs" where
  "sd_read_csv long_bits filename recs max_records st =
     (let s0 = \<lparr>records = recs, record_count = 0, written = []\<rparr> in
      case f_open filename FA_READ st of ((res, file), st1) \<Rightarrow>
        if res \<noteq> FR_OK then ((res, s0), st1)
        else (case csv_loop long_bits file max_records s0 st1 of (s, file, st2) \<Rightarrow>
          (case f_close file st2 of (_, st3) \<Rightarrow> ((FR_OK, s), st3))))"

text \<open>
  The lines of a file as successive calls \<open>f_gets(line, len, &file)\<close> deliver them
  when no read fails: a line longer than \<open>len - 1\<close> bytes arrives in pieces.
\<close>

function file_lines :: "nat \<Rightarrow> string \<Rightarrow> string list" where
  "file_lines len cs =
     (if gets_line (len - 1) cs = [] then []
      else gets_line (len - 1) cs # file_lines len (drop (length (gets_line (len - 1) cs)) cs))"
  by pat_completeness auto
termination
proof (relation "measure (\<lambda>(len, cs). length cs)")
  show "wf (measure (\<lambda>(len, cs). length cs))" by simp
next
  fix len :: nat and cs :: string
  assume ne: "gets_line (len - 1) cs \<noteq> []"
  then have "0 < length (gets_line (len - 1) cs)" by simp
  moreover have "length (gets_line n cs) \<le> length cs" for n
    by (induction n cs rule: gets_line.induct) auto
  then have "length (gets_line (len - 1) cs) \<le> length cs" .
  ultimately have "length cs - length (gets_line (len - 1) cs) < length cs" by arith
  then show "((len, drop (length (gets_line (len - 1) cs)) cs), len, cs) \<in> measure (\<lambda>(len, cs). length cs)"
    by simp
qed

text \<open>A line on which the parser finds a first and a second token.\<close>

definition two_tokens :: "string \<Rightarrow> bool" where
  "two_tokens line =
     (case strtok (c_str line) of
        None \<Rightarrow> False
      | Some (token, rest) \<Rightarrow> (case strtok rest of None \<Rightarrow> False | Some tr \<Rightarrow> True))"

text \<open>A line on which the parser finds a first token.\<close>

definition one_token :: "string \<Rightarrow> bool" where
  "one_token line = (strtok (c_str line) \<noteq> None)"

text \<open>
  What the loop of \<open>sd_read_csv\<close> keeps from the state \<open>s\<close> it starts in to the
  state \<open>s'\<close> it ends in, for the bound \<open>m\<close>: the count does not fall and passes
  \<open>m\<close> only if it was beyond already; the stores go to indices from the starting
  count up to, and without, \<open>m\<close>; the records at other indices are as they were.
\<close>

definition csv_inv :: "int \<Rightarrow> csv_state \<Rightarrow> csv_state \<Rightarrow> bool" where
  "csv_inv m s s' \<longleftrightarrow>
     record_count s \<le> record_count s' \<and>
     (record_count s' \<le> m \<or> record_count s' = record_count s) \<and>
     (\<exists>new. written s' = written s @ new \<and> (\<forall>i\<in>set new. record_count s \<le> i \<and> i < m)) \<and>
     (\<forall>i. i < record_count s \<or> m \<le> i \<longrightarrow> records s' i = records s i)"

section \<open>Example volumes\<close>

text \<open>
  A volume with room for two more bytes: the open succeeds, and the write that follows
  (directly, or after the seek of an append) reports success and two bytes written.
\<close>

definition short_volume :: fatfs where
  "short_volume = \<lparr>files = Map.empty, script = [Code FR_OK, Full 2, Full 2], calls = []\<rparr>"

text \<open>
  A volume on which the open succeeds and the call after it (the write of
  \<open>sd_write_file\<close>, the seek of \<open>sd_append_file\<close>) is denied.
\<close>

definition denied_volume :: fatfs where
  "denied_volume = \<lparr>files = Map.empty, script = [Code FR_OK, Code FR_DENIED], calls = []\<rparr>"

text \<open>A volume that serves the open and the write and times out at the third call.\<close>

definition timeout_volume :: fatfs where
  "timeout_volume = \<lparr>files = Map.empty, script = [Code FR_OK, Code FR_OK, Code FR_TIMEOUT], calls = []\<rparr>"

text \<open>A volume that is not ready at the first call.\<close>

definition not_ready_volume :: fatfs where
  "not_ready_volume = \<lparr>files = Map.empty, script = [Code FR_NOT_READY], calls = []\<rparr>"

text \<open>A caller's buffer that holds NUL bytes only.\<close>

definition zero_buffer :: buffer where
  "zero_buffer = (\<lambda>i. NUL)"

text \<open>A volume that holds the two bytes \<open>hi\<close> in the file \<open>hi.txt\<close>.\<close>

definition hi_volume :: fatfs where
  "hi_volume = \<lparr>files = [''hi.txt'' \<mapsto> ''hi''], script = [], calls = []\<rparr>"

text \<open>A volume that holds the three bytes \<open>hey\<close> in the file \<open>hey.txt\<close>.\<close>

definition hey_volume :: fatfs where
  "hey_volume = \<lparr>files = [''hey.txt'' \<mapsto> ''hey''], script = [], calls = []\<rparr>"

text \<open>A caller's buffer that holds the byte \<open>x\<close> everywhere.\<close>

definition x_buffer :: buffer where
  "x_buffer = (\<lambda>i. CHR ''x'')"

text \<open>An empty volume on which no call fails.\<close>

definition fresh_volume :: fatfs where
  "fresh_volume = \<lparr>files = Map.empty, script = [], calls = []\<rparr>"

text \<open>
  A volume that serves three calls (the open, write and close of a write) and is not
  ready at the fourth.
\<close>

definition unplugged_volume :: fatfs where
  "unplugged_volume =
     \<lparr>files = Map.empty, script = [Code FR_OK, Code FR_OK, Code FR_OK, Code FR_NOT_READY], calls = []\<rparr>"

text \<open>
  The specification's CSV example: a line of three fields, one of two and one of one,
  each ended by a line feed; and a volume that holds it as \<open>d.csv\<close>.
\<close>

definition csv_example :: string where
  "csv_example = ''a,b,3'' @ [CHR 0x0A] @ ''a,b'' @ [CHR 0x0A] @ ''a'' @ [CHR 0x0A]"

definition csv_volume :: fatfs where
  "csv_volume = \<lparr>files = [''d.csv'' \<mapsto> csv_example], script = [], calls = []\<rparr>"

text \<open>
  A caller's array whose records all hold 32 times \<open>x\<close>, 32 times \<open>y\<close> and the
  value 7, and the parser's state at the start of a run over it.
\<close>

definition sevens :: "int \<Rightarrow> CsvRecord" where
  "sevens = (\<lambda>i. \<lparr>field1 = replicate 32 (CHR ''x''), field2 = replicate 32 (CHR ''y''), csv_value = 7\<rparr>)"

definition sevens_state :: csv_state where
  "sevens_state = \<lparr>records = sevens, record_count = 0, written = []\<rparr>"

text \<open>A line whose first token has 40 bytes.\<close>

definition long_line :: string where
  "long_line = replicate 40 (CHR ''z'') @ '',k''"

section \<open>Properties of writing and appending\<close>

lemmas lib_defs =
  f_open_def f_write_def f_close_def f_lseek_def f_size_def f_read_def lib_step_def
  strlen_def c_str_def NUL_def store_at_def

text \<open>
  C2. In \<open>sd_write_file\<close>, when the open succeeds and \<open>f_write\<close> returns the code
  \<open>res\<close> and the count \<open>bw\<close>: a successful write of fewer bytes than the text has is
  reported as \<open>FR_DISK_ERR\<close>, and the operation returns \<open>FR_OK\<close> exactly when
  \<open>res\<close> is \<open>FR_OK\<close> and \<open>bw\<close> is the length of the text. The same holds in
  \<open>sd_append_file\<close> once the open and the seek have succeeded.
\<close>

theorem bytes_written_rule:
  "(fst (f_open filename FA_CREATE_ALWAYS_WRITE st) = (FR_OK, file) \<longrightarrow>
    fst (f_write file text (strlen text) (snd (f_open filename FA_CREATE_ALWAYS_WRITE st))) = (res, bw) \<longrightarrow>
      (res = FR_OK \<and> bw < strlen text \<longrightarrow> fst (sd_write_file filename text st) = FR_DISK_ERR) \<and>
      (fst (sd_write_file filename text st) = FR_OK \<longleftrightarrow> res = FR_OK \<and> bw = strlen text)) \<and>
   (fst (f_open filename FA_OPEN_ALWAYS_WRITE st) = (FR_OK, afile) \<longrightarrow>
    f_lseek afile (f_size afile (snd (f_open filename FA_OPEN_ALWAYS_WRITE st)))
      (snd (f_open filename FA_OPEN_ALWAYS_WRITE st)) = (FR_OK, afile', st2) \<longrightarrow>
    fst (f_write afile' text (strlen text) st2) = (ares, abw) \<longrightarrow>
      (ares = FR_OK \<and> abw < strlen text \<longrightarrow> fst (sd_append_file filename text st) = FR_DISK_ERR) \<and>
      (fst (sd_append_file filename text st) = FR_OK \<longleftrightarrow> ares = FR_OK \<and> abw = strlen text))"
proof (intro conjI impI)
  assume o: "fst (f_open filename FA_CREATE_ALWAYS_WRITE st) = (FR_OK, file)"
    and w: "fst (f_write file text (strlen text) (snd (f_open filename FA_CREATE_ALWAYS_WRITE st))) = (res, bw)"
  have r: "fst (sd_write_file filename text st) =
      (if res = FR_OK \<and> bw = strlen text then FR_OK else FR_DISK_ERR)"
    using o w by (auto simp: sd_write_file_def split: prod.splits)
  show "fst (sd_write_file filename text st) = FR_OK \<longleftrightarrow> res = FR_OK \<and> bw = strlen text"
    using r by simp
  assume "res = FR_OK \<and> bw < strlen text"
  then show "fst (sd_write_file filename text st) = FR_DISK_ERR"
    using r by simp
next
  assume o: "fst (f_open filename FA_OPEN_ALWAYS_WRITE st) = (FR_OK, afile)"
    and l: "f_lseek afile (f_size afile (snd (f_open filename FA_OPEN_ALWAYS_WRITE st)))
      (snd (f_open filename FA_OPEN_ALWAYS_WRITE st)) = (FR_OK, afile', st2)"
    and w: "fst (f_write afile' text (strlen text) st2) = (ares, abw)"
  have r: "fst (sd_append_file filename text st) =
      (if ares = FR_OK \<and> abw = strlen text then FR_OK else FR_DISK_ERR)"
    using o l w by (auto simp: sd_append_file_def split: prod.splits)
  show "fst (sd_append_file filename text st) = FR_OK \<longleftrightarrow> ares = FR_OK \<and> abw = strlen text"
    using r by simp
  assume "ares = FR_OK \<and> abw < strlen text"
  then show "fst (sd_append_file filename text st) = FR_DISK_ERR"
    using r by simp
qed

theorem bytes_written_rule_witness:
  "fst (f_open ''log.txt'' FA_CREATE_ALWAYS_WRITE short_volume) = (FR_OK, \<lparr>fname = ''log.txt'', fptr = 0\<rparr>) \<and>
   fst (f_write \<lparr>fname = ''log.txt'', fptr = 0\<rparr> ''hello'' (strlen ''hello'')
          (snd (f_open ''log.txt'' FA_CREATE_ALWAYS_WRITE short_volume))) = (FR_OK, 2) \<and>
   (2::nat) < strlen ''hello'' \<and>
   fst (sd_write_file ''log.txt'' ''hello'' short_volume) = FR_DISK_ERR \<and>
   fst (sd_append_file ''log.txt'' ''hello'' short_volume) = FR_DISK_ERR"
  using bytes_written_rule [of "''log.txt''" short_volume "\<lparr>fname = ''log.txt'', fptr = 0\<rparr>" "''hello''" FR_OK 2
      "\<lparr>fname = ''log.txt'', fptr = 0\<rparr>" "\<lparr>fname = ''log.txt'', fptr = 0\<rparr>"
      "snd (snd (f_lseek \<lparr>fname = ''log.txt'', fptr = 0\<rparr> 0 (snd (f_open ''log.txt'' FA_OPEN_ALWAYS_WRITE short_volume))))"
      FR_OK 2]
  by (simp add: lib_defs short_volume_def)

lemmas vol_defs =
  sd_get_space_kb_def sd_mount_def sd_unmount_def sd_delete_file_def sd_rename_file_def
  sd_create_directory_def f_mount_def f_getfree_def f_unlink_def f_rename_def f_mkdir_def

text \<open>
  C1 as stated fails in three places. With the open succeeding and \<open>f_write\<close>
  returning \<open>FR_DENIED\<close>, \<open>sd_write_file\<close> returns \<open>FR_DISK_ERR\<close>, not the
  write's code. With the open and the write succeeding and \<open>f_close\<close> returning
  \<open>FR_TIMEOUT\<close>, \<open>sd_write_file\<close> returns \<open>FR_OK\<close>. With \<open>f_mount\<close>
  succeeding and the \<open>f_getfree\<close> of the space report returning \<open>FR_DENIED\<close>,
  \<open>sd_mount\<close> returns \<open>FR_OK\<close>.
\<close>

theorem failure_codes_counterexample:
  "fst (f_open ''log.txt'' FA_CREATE_ALWAYS_WRITE denied_volume) = (FR_OK, \<lparr>fname = ''log.txt'', fptr = 0\<rparr>) \<and>
   fst (fst (f_write \<lparr>fname = ''log.txt'', fptr = 0\<rparr> ''hello'' (strlen ''hello'')
          (snd (f_open ''log.txt'' FA_CREATE_ALWAYS_WRITE denied_volume)))) = FR_DENIED \<and>
   fst (sd_write_file ''log.txt'' ''hello'' denied_volume) = FR_DISK_ERR \<and>
   fst (sd_write_file ''log.txt'' ''hello'' denied_volume) \<noteq> FR_DENIED \<and>
   fst (f_close \<lparr>fname = ''log.txt'', fptr = 5\<rparr>
          (snd (snd (f_write \<lparr>fname = ''log.txt'', fptr = 0\<rparr> ''hello'' (strlen ''hello'')
             (snd (f_open ''log.txt'' FA_CREATE_ALWAYS_WRITE timeout_volume)))))) = FR_TIMEOUT \<and>
   fst (sd_write_file ''log.txt'' ''hello'' timeout_volume) = FR_OK \<and>
   fst (f_mount True denied_volume) = FR_OK \<and>
   fst (f_getfree (snd (f_mount True denied_volume))) = FR_DENIED \<and>
   fst (sd_mount denied_volume) = FR_OK"
  by (simp add: sd_write_file_def lib_defs vol_defs denied_volume_def timeout_volume_def)

text \<open>
  C1, amended. Every operation that returns a result code returns the code of the first
  failing library step among those it tests, as it is: \<open>sd_get_space_kb\<close>,
  \<open>sd_unmount\<close>, \<open>sd_delete_file\<close>, \<open>sd_rename_file\<close> and
  \<open>sd_create_directory\<close> return the code of their one library call, \<open>sd_mount\<close>
  that of \<open>f_mount\<close> (the space report's result is dropped), \<open>sd_read_csv\<close> that
  of its open (nothing after the open is reported); \<open>sd_write_file\<close> and
  \<open>sd_append_file\<close> return a failing open's code and \<open>sd_append_file\<close> a failing
  seek's; \<open>sd_read_file\<close> returns the code of the first failing step of open, read
  and close. After a successful open (and seek), \<open>sd_write_file\<close> and
  \<open>sd_append_file\<close> return \<open>FR_OK\<close> when \<open>f_write\<close> succeeded with the full
  count and \<open>FR_DISK_ERR\<close> otherwise, so for every failing write whatever its code;
  the result of \<open>f_close\<close> plays no part.
\<close>

theorem failure_codes:
  "fst (sd_get_space_kb st) = fst (f_getfree st) \<and>
   fst (sd_mount st) = fst (f_mount True st) \<and>
   fst (sd_unmount st) = fst (f_mount False st) \<and>
   fst (sd_delete_file dname st) = fst (f_unlink dname st) \<and>
   fst (sd_rename_file oldname newname st) = fst (f_rename oldname newname st) \<and>
   fst (sd_create_directory path st) = fst (f_mkdir path st) \<and>
   fst (fst (sd_read_csv long_bits csvname recs max_records st)) = fst (fst (f_open csvname FA_READ st)) \<and>
   (fst (f_open filename FA_CREATE_ALWAYS_WRITE st) = (wres, wfile) \<longrightarrow>
      (wres \<noteq> FR_OK \<longrightarrow> fst (sd_write_file filename text st) = wres) \<and>
      (wres = FR_OK \<longrightarrow>
         fst (f_write wfile text (strlen text) (snd (f_open filename FA_CREATE_ALWAYS_WRITE st))) = (res, bw) \<longrightarrow>
         (res \<noteq> FR_OK \<longrightarrow> fst (sd_write_file filename text st) = FR_DISK_ERR) \<and>
         fst (sd_write_file filename text st) =
           (if res = FR_OK \<and> bw = strlen text then FR_OK else FR_DISK_ERR))) \<and>
   (fst (f_open filename FA_OPEN_ALWAYS_WRITE st) = (ares, afile) \<longrightarrow>
      (ares \<noteq> FR_OK \<longrightarrow> fst (sd_append_file filename text st) = ares) \<and>
      (ares = FR_OK \<longrightarrow>
         f_lseek afile (f_size afile (snd (f_open filename FA_OPEN_ALWAYS_WRITE st)))
           (snd (f_open filename FA_OPEN_ALWAYS_WRITE st)) = (sres, afile', ast) \<longrightarrow>
         (sres \<noteq> FR_OK \<longrightarrow> fst (sd_append_file filename text st) = sres) \<and>
         (sres = FR_OK \<longrightarrow> fst (f_write afile' text (strlen text) ast) = (res', bw') \<longrightarrow>
            (res' \<noteq> FR_OK \<longrightarrow> fst (sd_append_file filename text st) = FR_DISK_ERR) \<and>
            fst (sd_append_file filename text st) =
              (if res' = FR_OK \<and> bw' = strlen text then FR_OK else FR_DISK_ERR)))) \<and>
   (fst (f_open filename FA_READ st) = (ores, rfile) \<longrightarrow>
      (ores \<noteq> FR_OK \<longrightarrow> fst (fst (sd_read_file filename buffer bufsize st)) = ores) \<and>
      (ores = FR_OK \<longrightarrow>
         f_read rfile buffer (unat (bufsize - 1)) (snd (f_open filename FA_READ st)) = ((rres, n, buffer'), rfile', rst) \<longrightarrow>
         (rres \<noteq> FR_OK \<longrightarrow> fst (fst (sd_read_file filename buffer bufsize st)) = rres) \<and>
         (rres = FR_OK \<longrightarrow> fst (f_close rfile' rst) \<noteq> FR_OK \<longrightarrow>
            fst (fst (sd_read_file filename buffer bufsize st)) = fst (f_close rfile' rst))))"
proof (intro conjI impI)
  show "fst (sd_get_space_kb st) = fst (f_getfree st)"
    by (simp add: sd_get_space_kb_def split: prod.splits)
  show "fst (sd_mount st) = fst (f_mount True st)"
    by (simp add: sd_mount_def split: prod.splits)
  show "fst (sd_unmount st) = fst (f_mount False st)"
    by (simp add: sd_unmount_def split: prod.splits)
  show "fst (sd_delete_file dname st) = fst (f_unlink dname st)"
    by (simp add: sd_delete_file_def split: prod.splits)
  show "fst (sd_rename_file oldname newname st) = fst (f_rename oldname newname st)"
    by (simp add: sd_rename_file_def split: prod.splits)
  show "fst (sd_create_directory path st) = fst (f_mkdir path st)"
    by (simp add: sd_create_directory_def split: prod.splits)
  show "fst (fst (sd_read_csv long_bits csvname recs max_records st)) = fst (fst (f_open csvname FA_READ st))"
    by (simp add: sd_read_csv_def Let_def split: prod.splits)
next
  assume "fst (f_open filename FA_CREATE_ALWAYS_WRITE st) = (wres, wfile)" "wres \<noteq> FR_OK"
  then show "fst (sd_write_file filename text st) = wres"
    by (auto simp: sd_write_file_def split: prod.splits)
next
  assume a: "fst (f_open filename FA_CREATE_ALWAYS_WRITE st) = (wres, wfile)" "wres = FR_OK"
    "fst (f_write wfile text (strlen text) (snd (f_open filename FA_CREATE_ALWAYS_WRITE st))) = (res, bw)"
  then show r: "fst (sd_write_file filename text st) =
           (if res = FR_OK \<and> bw = strlen text then FR_OK else FR_DISK_ERR)"
    by (auto simp: sd_write_file_def split: prod.splits)
  assume "res \<noteq> FR_OK"
  then show "fst (sd_write_file filename text st) = FR_DISK_ERR"
    using r by simp
next
  assume "fst (f_open filename FA_OPEN_ALWAYS_WRITE st) = (ares, afile)" "ares \<noteq> FR_OK"
  then show "fst (sd_append_file filename text st) = ares"
    by (auto simp: sd_append_file_def split: prod.splits)
next
  assume "fst (f_open filename FA_OPEN_ALWAYS_WRITE st) = (ares, afile)" "ares = FR_OK"
    "f_lseek afile (f_size afile (snd (f_open filename FA_OPEN_ALWAYS_WRITE st)))
           (snd (f_open filename FA_OPEN_ALWAYS_WRITE st)) = (sres, afile', ast)" "sres \<noteq> FR_OK"
  then show "fst (sd_append_file filename text st) = sres"
    by (auto simp: sd_append_file_def split: prod.splits)
next
  assume "fst (f_open filename FA_OPEN_ALWAYS_WRITE st) = (ares, afile)" "ares = FR_OK"
    "f_lseek afile (f_size afile (snd (f_open filename FA_OPEN_ALWAYS_WRITE st)))
           (snd (f_open filename FA_OPEN_ALWAYS_WRITE st)) = (sres, afile', ast)" "sres = FR_OK"
    "fst (f_write afile' text (strlen text) ast) = (res', bw')"
  then show r: "fst (sd_append_file filename text st) =
              (if res' = FR_OK \<and> bw' = strlen text then FR_OK else FR_DISK_ERR)"
    by (auto simp: sd_append_file_def split: prod.splits)
  assume "res' \<noteq> FR_OK"
  then show "fst (sd_append_file filename text st) = FR_DISK_ERR"
    using r by simp
next
  assume "fst (f_open filename FA_READ st) = (ores, rfile)" "ores \<noteq> FR_OK"
  then show "fst (fst (sd_read_file filename buffer bufsize st)) = ores"
    by (auto simp: sd_read_file_def split: prod.splits)
next
  assume "fst (f_open filename FA_READ st) = (ores, rfile)" "ores = FR_OK"
    "f_read rfile buffer (unat (bufsize - 1)) (snd (f_open filename FA_READ st)) = ((rres, n, buffer'), rfile', rst)"
    "rres \<noteq> FR_OK"
  then show "fst (fst (sd_read_file filename buffer bufsize st)) = rres"
    by (auto simp: sd_read_file_def split: prod.splits)
next
  assume "fst (f_open filename FA_READ st) = (ores, rfile)" "ores = FR_OK"
    "f_read rfile buffer (unat (bufsize - 1)) (snd (f_open filename FA_READ st)) = ((rres, n, buffer'), rfile', rst)"
    "rres = FR_OK" "fst (f_close rfile' rst) \<noteq> FR_OK"
  then show "fst (fst (sd_read_file filename buffer bufsize st)) = fst (f_close rfile' rst)"
    by (auto simp: sd_read_file_def split: prod.splits)
qed

theorem failure_codes_witness:
  "fst (sd_get_space_kb not_ready_volume) = FR_NOT_READY \<and>
   fst (sd_mount not_ready_volume) = FR_NOT_READY \<and>
   fst (sd_unmount not_ready_volume) = FR_NOT_READY \<and>
   fst (sd_delete_file ''log.txt'' not_ready_volume) = FR_NOT_READY \<and>
   fst (sd_rename_file ''log.txt'' ''old.txt'' not_ready_volume) = FR_NOT_READY \<and>
   fst (sd_create_directory ''logs'' not_ready_volume) = FR_NOT_READY \<and>
   fst (fst (sd_read_csv 32 ''d.csv'' sevens 3 not_ready_volume)) = FR_NOT_READY \<and>
   fst (f_open ''log.txt'' FA_CREATE_ALWAYS_WRITE not_ready_volume) =
     (FR_NOT_READY, \<lparr>fname = ''log.txt'', fptr = 0\<rparr>) \<and>
   fst (sd_write_file ''log.txt'' ''hello'' not_ready_volume) = FR_NOT_READY \<and>
   fst (sd_append_file ''log.txt'' ''hello'' not_ready_volume) = FR_NOT_READY \<and>
   fst (fst (sd_read_file ''log.txt'' zero_buffer 8 not_ready_volume)) = FR_NOT_READY \<and>
   fst (f_open ''log.txt'' FA_CREATE_ALWAYS_WRITE denied_volume) = (FR_OK, \<lparr>fname = ''log.txt'', fptr = 0\<rparr>) \<and>
   fst (f_write \<lparr>fname = ''log.txt'', fptr = 0\<rparr> ''hello'' (strlen ''hello'')
          (snd (f_open ''log.txt'' FA_CREATE_ALWAYS_WRITE denied_volume))) = (FR_DENIED, 0) \<and>
   fst (sd_write_file ''log.txt'' ''hello'' denied_volume) = FR_DISK_ERR \<and>
   fst (f_open ''log.txt'' FA_OPEN_ALWAYS_WRITE denied_volume) = (FR_OK, \<lparr>fname = ''log.txt'', fptr = 0\<rparr>) \<and>
   fst (f_lseek \<lparr>fname = ''log.txt'', fptr = 0\<rparr> 0 (snd (f_open ''log.txt'' FA_OPEN_ALWAYS_WRITE denied_volume))) = FR_DENIED \<and>
   fst (sd_append_file ''log.txt'' ''hello'' denied_volume) = FR_DENIED \<and>
   fst (f_open ''log.txt'' FA_READ denied_volume) = (FR_NO_FILE, \<lparr>fname = ''log.txt'', fptr = 0\<rparr>) \<and>
   fst (fst (sd_read_file ''log.txt'' zero_buffer 8 denied_volume)) = FR_NO_FILE \<and>
   fst (sd_mount denied_volume) = FR_OK"
  using
    failure_codes [where st = not_ready_volume and dname = "''log.txt''" and oldname = "''log.txt''"
      and newname = "''old.txt''" and path = "''logs''" and long_bits = 32 and csvname = "''d.csv''"
      and recs = sevens and max_records = 3 and filename = "''log.txt''" and ?text = "''hello''"
      and wres = FR_NOT_READY and wfile = "\<lparr>fname = ''log.txt'', fptr = 0\<rparr>"
      and ares = FR_NOT_READY and afile = "\<lparr>fname = ''log.txt'', fptr = 0\<rparr>"
      and ores = FR_NOT_READY and rfile = "\<lparr>fname = ''log.txt'', fptr = 0\<rparr>"
      and buffer = zero_buffer and bufsize = 8]
    failure_codes [where st = denied_volume and filename = "''log.txt''" and ?text = "''hello''"
      and wres = FR_OK and wfile = "\<lparr>fname = ''log.txt'', fptr = 0\<rparr>" and res = FR_DENIED and bw = 0
      and ares = FR_OK and afile = "\<lparr>fname = ''log.txt'', fptr = 0\<rparr>" and sres = FR_DENIED
      and afile' = "\<lparr>fname = ''log.txt'', fptr = 0\<rparr>"
      and ast = "snd (snd (f_lseek \<lparr>fname = ''log.txt'', fptr = 0\<rparr> 0 (snd (f_open ''log.txt'' FA_OPEN_ALWAYS_WRITE denied_volume))))"
      and ores = FR_NO_FILE and rfile = "\<lparr>fname = ''log.txt'', fptr = 0\<rparr>"
      and buffer = zero_buffer and bufsize = 8]
  by (simp add: lib_defs vol_defs denied_volume_def not_ready_volume_def)

section \<open>Properties of reading into a buffer\<close>

lemmas read_defs =
  sd_read_file_def f_open_def f_read_def f_close_def lib_step_def poke_def NUL_def Let_def

lemma sd_read_file_success:
  assumes "sd_read_file filename buffer bufsize st = ((FR_OK, n, buffer'), st')"
  shows "\<exists>c. files st filename = Some c \<and> n = min (unat (bufsize - 1)) (length c) \<and>
           buffer' = (poke buffer (take n c))(n := NUL)"
  using assms
  by (auto simp: sd_read_file_def f_open_def f_read_def f_close_def lib_step_def Let_def min_def
           split: prod.splits if_splits list.splits option.splits)

lemma unat_minus_one32: "unat (- 1 :: 32 word) = 4294967295"
  by (simp add: unsigned_minus_1_eq_mask mask_eq_exp_minus_1)

lemma sd_read_file_calls:
  assumes "fst (fst (f_open filename FA_READ st)) = FR_OK"
  shows "calls (snd (sd_read_file filename buffer bufsize st)) =
     calls st @ [Call_open filename FA_READ, Call_read filename (unat (bufsize - 1)), Call_close filename]"
proof -
  obtain r fp st1 where o: "f_open filename FA_READ st = ((r, fp), st1)"
    by (cases "f_open filename FA_READ st") auto
  with assms have r: "r = FR_OK" by simp
  have fp: "fname fp = filename" and c1: "calls st1 = calls st @ [Call_open filename FA_READ]"
    using o by (auto simp: f_open_def lib_step_def Let_def split: list.splits if_splits option.splits)
  obtain r2 n2 b2 fp2 st2 where rd: "f_read fp buffer (unat (bufsize - 1)) st1 = ((r2, n2, b2), fp2, st2)"
    by (cases "f_read fp buffer (unat (bufsize - 1)) st1") auto
  have fp2: "fname fp2 = filename"
    and c2: "calls st2 = calls st1 @ [Call_read filename (unat (bufsize - 1))]"
    using rd fp by (auto simp: f_read_def lib_step_def Let_def split: list.splits if_splits option.splits)
  have c3: "calls (snd (f_close fp2 st2)) = calls st2 @ [Call_close filename]"
    using fp2 by (simp add: f_close_def lib_step_def split: list.splits)
  show ?thesis
    using o r rd c1 c2 c3 by (auto simp: sd_read_file_def split: prod.splits)
qed

text \<open>
  C6 as stated fails for the capacity 0: reading the two-byte file with \<open>bufsize = 0\<close>
  succeeds, stores two bytes and puts the terminator at index 2, outside a buffer of
  capacity 0.
\<close>

theorem read_capacity_zero_counterexample:
  "fst (fst (sd_read_file ''hi.txt'' x_buffer 0 hi_volume)) = FR_OK \<and>
   unat (0 :: 32 word) < length ''hi'' \<and>
   fst (snd (fst (sd_read_file ''hi.txt'' x_buffer 0 hi_volume))) = 2 \<and>
   snd (snd (fst (sd_read_file ''hi.txt'' x_buffer 0 hi_volume))) 2 = NUL \<and>
   \<not> 2 < unat (0 :: 32 word) \<and>
   \<not> 2 \<le> int (unat (0 :: 32 word)) - 1"
  by (simp add: read_defs hi_volume_def x_buffer_def unat_minus_one32)

text \<open>
  C6, amended. For every successful \<open>sd_read_file\<close> with a capacity of at least 1:
  at most \<open>bufsize - 1\<close> bytes are read, they are the first bytes of the file, the
  NUL terminator stands right behind them and within the first \<open>bufsize\<close> bytes of
  the buffer, no byte from index \<open>bufsize\<close> on is changed, and a file longer than
  \<open>bufsize\<close> bytes gives exactly \<open>bufsize - 1\<close> bytes.
\<close>

theorem read_bounded_by_capacity:
  assumes "sd_read_file filename buffer bufsize st = ((FR_OK, n, buffer'), st')"
      and "1 \<le> unat bufsize"
      and "files st filename = Some c"
  shows "n \<le> unat bufsize - 1 \<and> n < unat bufsize \<and>
         (\<forall>i<n. buffer' i = c ! i) \<and> buffer' n = NUL \<and>
         (\<forall>i\<ge>unat bufsize. buffer' i = buffer i) \<and>
         (unat bufsize < length c \<longrightarrow> n = unat bufsize - 1)"
proof -
  from sd_read_file_success [OF assms(1)] assms(3)
  have n: "n = min (unat (bufsize - 1)) (length c)"
    and b: "buffer' = (poke buffer (take n c))(n := NUL)" by auto
  have w: "unat (bufsize - 1) = unat bufsize - 1"
    using assms(2) by (simp add: unat_sub word_le_nat_alt)
  have le: "n \<le> unat bufsize - 1" using n w by simp
  then have lt: "n < unat bufsize" using assms(2) by arith
  have nc: "n \<le> length c" using n by simp
  have "buffer' i = c ! i" if "i < n" for i
  proof -
    have "buffer' i = poke buffer (take n c) i" using b that by simp
    also have "\<dots> = take n c ! i" using that nc by (simp add: poke_def)
    also have "\<dots> = c ! i" using that by simp
    finally show ?thesis .
  qed
  moreover have "buffer' n = NUL" using b by simp
  moreover have "buffer' i = buffer i" if "unat bufsize \<le> i" for i
    using b lt that nc by (simp add: poke_def)
  moreover have "unat bufsize < length c \<longrightarrow> n = unat bufsize - 1"
    using n w by auto
  ultimately show ?thesis using le lt by blast
qed


theorem read_bounded_by_capacity_witness:
  "fst (fst (sd_read_file ''hey.txt'' x_buffer 2 hey_volume)) = FR_OK \<and>
   1 \<le> unat (2 :: 32 word) \<and> files hey_volume ''hey.txt'' = Some ''hey'' \<and>
   unat (2 :: 32 word) < length ''hey'' \<and>
   fst (snd (fst (sd_read_file ''hey.txt'' x_buffer 2 hey_volume))) = 1 \<and>
   snd (snd (fst (sd_read_file ''hey.txt'' x_buffer 2 hey_volume))) 0 = CHR ''h'' \<and>
   snd (snd (fst (sd_read_file ''hey.txt'' x_buffer 2 hey_volume))) 1 = NUL \<and>
   snd (snd (fst (sd_read_file ''hey.txt'' x_buffer 2 hey_volume))) 2 = x_buffer 2"
proof -
  obtain r n b s where e: "sd_read_file ''hey.txt'' x_buffer 2 hey_volume = ((r, n, b), s)"
    by (cases "sd_read_file ''hey.txt'' x_buffer 2 hey_volume") auto
  have r: "r = FR_OK" and n: "n = 1"
    using e by (simp_all add: read_defs hey_volume_def)
  have c: "files hey_volume ''hey.txt'' = Some ''hey''" by (simp add: hey_volume_def)
  have k: "1 \<le> unat (2 :: 32 word)" by simp
  from read_bounded_by_capacity [OF e [unfolded r] k c]
  show ?thesis using e r n c by simp
qed

text \<open>
  C9. With \<open>bufsize = 0\<close> the length \<open>sd_read_file\<close> asks \<open>f_read\<close> for is
  \<open>bufsize - 1\<close> wrapped to 4294967295, where a capacity of at least 1 asks for
  \<open>bufsize - 1\<close> bytes; on a volume without faults the call with \<open>bufsize = 0\<close>
  then succeeds and reads the whole file (4294967295 bytes of a longer one) instead of
  reading nothing or failing.
\<close>

theorem read_capacity_zero_wraps:
  "(fst (fst (f_open filename FA_READ st)) = FR_OK \<longrightarrow>
      calls (snd (sd_read_file filename buffer 0 st)) =
        calls st @ [Call_open filename FA_READ, Call_read filename 4294967295, Call_close filename]) \<and>
   (1 \<le> unat bufsize \<longrightarrow> fst (fst (f_open filename FA_READ st)) = FR_OK \<longrightarrow>
      calls (snd (sd_read_file filename buffer bufsize st)) =
        calls st @ [Call_open filename FA_READ, Call_read filename (unat bufsize - 1), Call_close filename]) \<and>
   (files st filename = Some c \<longrightarrow> script st = [] \<longrightarrow>
      fst (fst (sd_read_file filename buffer 0 st)) = FR_OK \<and>
      fst (snd (fst (sd_read_file filename buffer 0 st))) = min 4294967295 (length c))"
proof (intro conjI impI)
  assume o: "fst (fst (f_open filename FA_READ st)) = FR_OK"
  show "calls (snd (sd_read_file filename buffer 0 st)) =
        calls st @ [Call_open filename FA_READ, Call_read filename 4294967295, Call_close filename]"
    using sd_read_file_calls [OF o, of buffer 0] by (simp add: unat_minus_one32)
  assume "1 \<le> unat bufsize"
  then have "unat (bufsize - 1) = unat bufsize - 1" by (simp add: unat_sub word_le_nat_alt)
  then show "calls (snd (sd_read_file filename buffer bufsize st)) =
        calls st @ [Call_open filename FA_READ, Call_read filename (unat bufsize - 1), Call_close filename]"
    using sd_read_file_calls [OF o, of buffer bufsize] by simp
next
  assume f: "files st filename = Some c" "script st = []"
  then show "fst (fst (sd_read_file filename buffer 0 st)) = FR_OK"
    by (simp add: sd_read_file_def f_open_def f_read_def f_close_def lib_step_def Let_def)
  from f show "fst (snd (fst (sd_read_file filename buffer 0 st))) = min 4294967295 (length c)"
    by (simp add: sd_read_file_def f_open_def f_read_def f_close_def lib_step_def Let_def
        unat_minus_one32 min.commute)
qed

theorem read_capacity_zero_wraps_witness:
  "fst (fst (f_open ''hi.txt'' FA_READ hi_volume)) = FR_OK \<and>
   files hi_volume ''hi.txt'' = Some ''hi'' \<and> script hi_volume = [] \<and>
   1 \<le> unat (2 :: 32 word) \<and>
   calls (snd (sd_read_file ''hi.txt'' x_buffer 0 hi_volume)) =
     [Call_open ''hi.txt'' FA_READ, Call_read ''hi.txt'' 4294967295, Call_close ''hi.txt''] \<and>
   calls (snd (sd_read_file ''hi.txt'' x_buffer 2 hi_volume)) =
     [Call_open ''hi.txt'' FA_READ, Call_read ''hi.txt'' 1, Call_close ''hi.txt''] \<and>
   fst (fst (sd_read_file ''hi.txt'' x_buffer 0 hi_volume)) = FR_OK \<and>
   fst (snd (fst (sd_read_file ''hi.txt'' x_buffer 0 hi_volume))) = 2"
  using read_capacity_zero_wraps [of "''hi.txt''" hi_volume x_buffer 2 "''hi''"]
  by (simp add: f_open_def lib_step_def hi_volume_def)

section \<open>Writing, then reading\<close>

lemma take_length_c_str: "take (strlen s) s = c_str s"
  unfolding strlen_def c_str_def by (rule takeWhile_eq_take [symmetric])

lemma sd_write_file_success:
  assumes "sd_write_file filename text st = (FR_OK, st')"
  shows "files st' filename = Some (c_str text)"
proof -
  have len: "strlen text \<le> length text"
    by (simp add: strlen_def c_str_def length_takeWhile_le)
  have short: "\<And>k. min (min k (strlen text)) (length text) = strlen text \<Longrightarrow>
      take (min k (strlen text)) text = c_str text"
  proof -
    fix k assume "min (min k (strlen text)) (length text) = strlen text"
    with len have "min k (strlen text) = strlen text" by (auto simp: min_def split: if_splits)
    then show "take (min k (strlen text)) text = c_str text" by (simp add: take_length_c_str)
  qed
  show ?thesis
    using assms short
    by (auto simp: sd_write_file_def f_open_def f_write_def f_close_def lib_step_def Let_def
                   store_at_def take_length_c_str
             split: prod.splits if_splits list.splits option.splits outcome.splits)
qed

lemma c_str_no_NUL: "NUL \<notin> set (c_str s)"
  by (auto simp: c_str_def dest: set_takeWhileD)

lemma buffer_text_eq:
  assumes "n < k" and "\<forall>i<n. buf i = t ! i" and "buf n = NUL" and "length t = n" and "NUL \<notin> set t"
  shows "buffer_text k buf = t"
proof -
  have split: "[0..<k] = [0..<n] @ n # [Suc n..<k]"
    using assms(1) by (metis less_imp_le_nat upt_add_eq_append upt_conv_Cons le0 add_0 le_add_diff_inverse)
  have pre: "map buf [0..<n] = t"
    using assms(2,4) by (auto intro: nth_equalityI)
  have "buffer_text k buf = takeWhile (\<lambda>c. c \<noteq> NUL) (t @ buf n # map buf [Suc n..<k])"
    using split pre by (simp add: buffer_text_def c_str_def)
  also have "\<dots> = t"
    using assms(3,5) by (simp add: takeWhile_append)
  finally show ?thesis .
qed

text \<open>
  C5 as stated fails: after a successful write the read can still fail, here because
  the card is not ready when the file is opened for reading.
\<close>

theorem write_read_round_trip_counterexample:
  "fst (sd_write_file ''log.txt'' ''hello'' unplugged_volume) = FR_OK \<and>
   strlen ''hello'' < unat (16 :: 32 word) \<and>
   fst (fst (sd_read_file ''log.txt'' zero_buffer 16
               (snd (sd_write_file ''log.txt'' ''hello'' unplugged_volume)))) = FR_NOT_READY \<and>
   fst (fst (sd_read_file ''log.txt'' zero_buffer 16
               (snd (sd_write_file ''log.txt'' ''hello'' unplugged_volume)))) \<noteq> FR_OK"
  by (simp add: sd_write_file_def sd_read_file_def lib_defs unplugged_volume_def)

text \<open>
  C5, amended. After a successful \<open>sd_write_file\<close> of a text, \<open>sd_read_file\<close>
  of the same file with a capacity greater than the text's length succeeds when the
  library reports no failure in its three calls (open, read, close), and whenever it
  succeeds it reports as many bytes as the text has and leaves the text in the buffer,
  followed by the terminator.
\<close>

theorem write_read_round_trip:
  assumes "sd_write_file filename text st = (FR_OK, st1)"
      and "strlen text < unat bufsize"
  shows "(list_all no_fault (take 3 (script st1)) \<longrightarrow>
            fst (fst (sd_read_file filename buffer bufsize st1)) = FR_OK) \<and>
         (fst (fst (sd_read_file filename buffer bufsize st1)) = FR_OK \<longrightarrow>
            fst (snd (fst (sd_read_file filename buffer bufsize st1))) = strlen text \<and>
            buffer_text (unat bufsize) (snd (snd (fst (sd_read_file filename buffer bufsize st1)))) = c_str text)"
proof (intro conjI impI)
  have c: "files st1 filename = Some (c_str text)"
    by (rule sd_write_file_success [OF assms(1)])
  assume "list_all no_fault (take 3 (script st1))"
  then show "fst (fst (sd_read_file filename buffer bufsize st1)) = FR_OK"
    using c
    by (auto simp: sd_read_file_def f_open_def f_read_def f_close_def lib_step_def Let_def
                   no_fault_def
             split: list.splits)
next
  have c: "files st1 filename = Some (c_str text)"
    by (rule sd_write_file_success [OF assms(1)])
  assume ok: "fst (fst (sd_read_file filename buffer bufsize st1)) = FR_OK"
  obtain n b s where e: "sd_read_file filename buffer bufsize st1 = ((FR_OK, n, b), s)"
    using ok by (cases "sd_read_file filename buffer bufsize st1") auto
  have k: "1 \<le> unat bufsize" using assms(2) by arith
  have w: "unat (bufsize - 1) = unat bufsize - 1"
    using k by (simp add: unat_sub word_le_nat_alt)
  from sd_read_file_success [OF e] c
  have n: "n = min (unat (bufsize - 1)) (strlen text)"
    and b: "b = (poke buffer (take n (c_str text)))(n := NUL)" by (auto simp: strlen_def)
  have n': "n = strlen text" using n w assms(2) by simp
  have "\<forall>i<n. b i = c_str text ! i"
    using b n' by (simp add: poke_def strlen_def)
  moreover have "b n = NUL" using b by simp
  ultimately have "buffer_text (unat bufsize) b = c_str text"
    using assms(2) n' c_str_no_NUL [of "text"]
    by (intro buffer_text_eq [where n = n]) (simp_all add: strlen_def)
  then show "buffer_text (unat bufsize) (snd (snd (fst (sd_read_file filename buffer bufsize st1)))) = c_str text"
    using e by simp
  show "fst (snd (fst (sd_read_file filename buffer bufsize st1))) = strlen text"
    using e n' by simp
qed

theorem write_read_round_trip_witness:
  "fst (sd_write_file ''log.txt'' ''hello'' fresh_volume) = FR_OK \<and>
   strlen ''hello'' < unat (16 :: 32 word) \<and>
   list_all no_fault (take 3 (script (snd (sd_write_file ''log.txt'' ''hello'' fresh_volume)))) \<and>
   fst (fst (sd_read_file ''log.txt'' zero_buffer 16
               (snd (sd_write_file ''log.txt'' ''hello'' fresh_volume)))) = FR_OK \<and>
   fst (snd (fst (sd_read_file ''log.txt'' zero_buffer 16
               (snd (sd_write_file ''log.txt'' ''hello'' fresh_volume))))) = 5 \<and>
   buffer_text 16 (snd (snd (fst (sd_read_file ''log.txt'' zero_buffer 16
               (snd (sd_write_file ''log.txt'' ''hello'' fresh_volume)))))) = ''hello''"
proof -
  obtain r st1 where w: "sd_write_file ''log.txt'' ''hello'' fresh_volume = (r, st1)"
    by (cases "sd_write_file ''log.txt'' ''hello'' fresh_volume") auto
  have r: "r = FR_OK" and s: "script st1 = []"
    using w by (auto simp: sd_write_file_def lib_defs fresh_volume_def)
  have l: "strlen ''hello'' < unat (16 :: 32 word)"
    by (simp add: strlen_def c_str_def NUL_def)
  have t: "c_str ''hello'' = ''hello''" "strlen ''hello'' = 5"
    by (simp_all add: strlen_def c_str_def NUL_def)
  from write_read_round_trip [OF w [unfolded r] l, of zero_buffer]
  show ?thesis using w r s l t by simp
qed

section \<open>A failing seek in an append\<close>

text \<open>
  C7. In \<open>sd_append_file\<close>, when the open succeeds and the seek to the end of the
  file fails: the seek's code is returned, the library calls made are the open, the seek
  and the close, in this order (the handle is closed before the return and no write is
  attempted), and the files are as the open left them.
\<close>

theorem append_seek_failure:
  assumes "fst (f_open filename FA_OPEN_ALWAYS_WRITE st) = (FR_OK, file)"
      and "fst (f_lseek file (f_size file (snd (f_open filename FA_OPEN_ALWAYS_WRITE st)))
                 (snd (f_open filename FA_OPEN_ALWAYS_WRITE st))) = sres"
      and "sres \<noteq> FR_OK"
  shows "fst (sd_append_file filename text st) = sres \<and>
         calls (snd (sd_append_file filename text st)) =
           calls st @ [Call_open filename FA_OPEN_ALWAYS_WRITE,
                       Call_lseek filename (f_size file (snd (f_open filename FA_OPEN_ALWAYS_WRITE st))),
                       Call_close filename] \<and>
         files (snd (sd_append_file filename text st)) =
           files (snd (f_open filename FA_OPEN_ALWAYS_WRITE st))"
proof -
  obtain st1 where o: "f_open filename FA_OPEN_ALWAYS_WRITE st = ((FR_OK, file), st1)"
    using assms(1) by (cases "f_open filename FA_OPEN_ALWAYS_WRITE st") auto
  have fp: "fname file = filename"
    and c1: "calls st1 = calls st @ [Call_open filename FA_OPEN_ALWAYS_WRITE]"
    using o by (auto simp: f_open_def lib_step_def Let_def split: list.splits if_splits option.splits)
  obtain file2 st2 where l: "f_lseek file (f_size file st1) st1 = (sres, file2, st2)"
    using assms(2) o by (cases "f_lseek file (f_size file st1) st1") auto
  have fp2: "fname file2 = filename"
    and c2: "calls st2 = calls st1 @ [Call_lseek filename (f_size file st1)]"
    and f2: "files st2 = files st1"
    using l fp by (auto simp: f_lseek_def lib_step_def split: list.splits if_splits)
  have c3: "calls (snd (f_close file2 st2)) = calls st2 @ [Call_close filename]"
    and f3: "files (snd (f_close file2 st2)) = files st2"
    using fp2 by (simp_all add: f_close_def lib_step_def split: list.splits)
  have "sd_append_file filename text st = (sres, snd (f_close file2 st2))"
    using o l assms(3) by (simp add: sd_append_file_def split: prod.splits)
  then show ?thesis using o c1 c2 c3 f2 f3 by simp
qed

theorem append_seek_failure_witness:
  "fst (f_open ''log.txt'' FA_OPEN_ALWAYS_WRITE denied_volume) = (FR_OK, \<lparr>fname = ''log.txt'', fptr = 0\<rparr>) \<and>
   fst (f_lseek \<lparr>fname = ''log.txt'', fptr = 0\<rparr> 0
          (snd (f_open ''log.txt'' FA_OPEN_ALWAYS_WRITE denied_volume))) = FR_DENIED \<and>
   fst (sd_append_file ''log.txt'' ''hello'' denied_volume) = FR_DENIED \<and>
   calls (snd (sd_append_file ''log.txt'' ''hello'' denied_volume)) =
     [Call_open ''log.txt'' FA_OPEN_ALWAYS_WRITE, Call_lseek ''log.txt'' 0, Call_close ''log.txt''] \<and>
   files (snd (sd_append_file ''log.txt'' ''hello'' denied_volume)) ''log.txt'' = Some []"
proof -
  have o: "fst (f_open ''log.txt'' FA_OPEN_ALWAYS_WRITE denied_volume) = (FR_OK, \<lparr>fname = ''log.txt'', fptr = 0\<rparr>)"
    by (simp add: lib_defs denied_volume_def)
  have z: "f_size \<lparr>fname = ''log.txt'', fptr = 0\<rparr> (snd (f_open ''log.txt'' FA_OPEN_ALWAYS_WRITE denied_volume)) = 0"
    by (simp add: lib_defs denied_volume_def)
  have l: "fst (f_lseek \<lparr>fname = ''log.txt'', fptr = 0\<rparr>
                 (f_size \<lparr>fname = ''log.txt'', fptr = 0\<rparr> (snd (f_open ''log.txt'' FA_OPEN_ALWAYS_WRITE denied_volume)))
                 (snd (f_open ''log.txt'' FA_OPEN_ALWAYS_WRITE denied_volume))) = FR_DENIED"
    by (simp add: lib_defs denied_volume_def)
  have d: "FR_DENIED \<noteq> FR_OK" by simp
  have f: "files (snd (f_open ''log.txt'' FA_OPEN_ALWAYS_WRITE denied_volume)) ''log.txt'' = Some []"
    and c: "calls denied_volume = []"
    by (simp_all add: lib_defs denied_volume_def)
  from append_seek_failure [OF o l d, of "''hello''"]
  show ?thesis using o l z f c by simp
qed

section \<open>Properties of the CSV reader\<close>

lemmas csv_setters = set_field1_def set_field2_def set_value_def

lemma csv_line_count:
  "record_count (csv_line long_bits line s) = record_count s + (if two_tokens line then 1 else 0)"
  by (simp add: csv_line_def two_tokens_def csv_setters Let_def split: option.splits prod.splits)

lemma csv_line_written:
  "\<exists>new. written (csv_line long_bits line s) = written s @ new \<and> set new \<subseteq> {record_count s}"
  by (simp add: csv_line_def csv_setters Let_def split: option.splits prod.splits)

lemma csv_line_frame:
  "i \<noteq> record_count s \<Longrightarrow> records (csv_line long_bits line s) i = records s i"
  by (simp add: csv_line_def csv_setters Let_def split: option.splits prod.splits)

lemma csv_loop_step:
  "csv_loop long_bits fp m s st =
     (case f_gets 128 fp st of
        (None, fp', st') \<Rightarrow> (s, fp', st')
      | (Some line, fp', st') \<Rightarrow>
          if record_count s < m then csv_loop long_bits fp' m (csv_line long_bits line s) st'
          else (s, fp', st'))"
  by (rule csv_loop.simps)

declare csv_loop.simps [simp del] file_lines.simps [simp del]

lemma csv_inv_refl: "csv_inv m s s"
  by (simp add: csv_inv_def)

lemma csv_inv_step:
  assumes "record_count s < m" and "csv_inv m (csv_line long_bits line s) s'"
  shows "csv_inv m s s'"
proof -
  obtain new1 where n1: "written (csv_line long_bits line s) = written s @ new1" "set new1 \<subseteq> {record_count s}"
    using csv_line_written by blast
  from assms(2) obtain new2 where n2: "written s' = written (csv_line long_bits line s) @ new2"
      "\<forall>i\<in>set new2. record_count (csv_line long_bits line s) \<le> i \<and> i < m"
    unfolding csv_inv_def by blast
  have c: "record_count s \<le> record_count (csv_line long_bits line s)"
      "record_count (csv_line long_bits line s) \<le> record_count s + 1"
    by (simp_all add: csv_line_count)
  have w: "written s' = written s @ (new1 @ new2)" using n1 n2 by simp
  have b: "\<forall>i\<in>set (new1 @ new2). record_count s \<le> i \<and> i < m"
    using n1(2) n2(2) c assms(1) by auto
  have f: "\<forall>i. i < record_count s \<or> m \<le> i \<longrightarrow> records s' i = records s i"
  proof (intro allI impI)
    fix i assume i: "i < record_count s \<or> m \<le> i"
    then have "i < record_count (csv_line long_bits line s) \<or> m \<le> i" using c by auto
    then have "records s' i = records (csv_line long_bits line s) i"
      using assms(2) unfolding csv_inv_def by blast
    also have "\<dots> = records s i" using i assms(1) by (intro csv_line_frame) auto
    finally show "records s' i = records s i" .
  qed
  have "record_count s \<le> record_count s'"
    using assms(2) c unfolding csv_inv_def by linarith
  moreover have "record_count s' \<le> m \<or> record_count s' = record_count s"
    using assms c unfolding csv_inv_def by linarith
  ultimately show ?thesis unfolding csv_inv_def using w b f by blast
qed

lemma csv_loop_inv: "csv_inv m s (fst (csv_loop long_bits fp m s st))"
proof (induction long_bits fp m s st rule: csv_loop.induct)
  case (1 long_bits fp m s st)
  obtain x fp' st' where g: "f_gets 128 fp st = (x, fp', st')"
    by (cases "f_gets 128 fp st") auto
  show ?case
  proof (cases x)
    case None
    then show ?thesis using g by (simp add: csv_loop_step [of long_bits fp m s st] csv_inv_refl)
  next
    case (Some line)
    show ?thesis
    proof (cases "record_count s < m")
      case True
      have "csv_inv m (csv_line long_bits line s) (fst (csv_loop long_bits fp' m (csv_line long_bits line s) st'))"
        using "1.IH" [of x "(fp', st')" line fp' st'] g Some True by simp
      then have "csv_inv m s (fst (csv_loop long_bits fp' m (csv_line long_bits line s) st'))"
        using True by (rule csv_inv_step [rotated])
      then show ?thesis using g Some True by (simp add: csv_loop_step [of long_bits fp m s st])
    next
      case False
      then show ?thesis using g Some by (simp add: csv_loop_step [of long_bits fp m s st] csv_inv_refl)
    qed
  qed
qed

lemma f_gets_no_fault:
  assumes "files st (fname fp) = Some c" and "script st = []"
  shows "f_gets len fp st =
     (if gets_line (len - 1) (drop (fptr fp) c) = []
      then (None, fp, st\<lparr>calls := calls st @ [Call_gets (fname fp)]\<rparr>)
      else (Some (gets_line (len - 1) (drop (fptr fp) c)),
            fp\<lparr>fptr := fptr fp + length (gets_line (len - 1) (drop (fptr fp) c))\<rparr>,
            st\<lparr>calls := calls st @ [Call_gets (fname fp)]\<rparr>))"
  using assms by (simp add: f_gets_def lib_step_def Let_def)

lemma csv_loop_count:
  assumes "files st (fname fp) = Some c" and "script st = []"
  shows "record_count (fst (csv_loop long_bits fp m s st)) =
     (if record_count s < m
      then min m (record_count s + int (length (filter two_tokens (file_lines 128 (drop (fptr fp) c)))))
      else record_count s)"
  using assms
proof (induction long_bits fp m s st rule: csv_loop.induct)
  case (1 long_bits fp m s st)
  let ?rest = "drop (fptr fp) c"
  let ?l = "gets_line (128 - 1) ?rest"
  let ?st' = "st\<lparr>calls := calls st @ [Call_gets (fname fp)]\<rparr>"
  let ?fp' = "fp\<lparr>fptr := fptr fp + length ?l\<rparr>"
  note g = f_gets_no_fault [OF "1.prems", of 128]
  show ?case
  proof (cases "?l = []")
    case True
    then have "file_lines 128 ?rest = []" by (simp add: file_lines.simps [of 128 ?rest])
    then show ?thesis using g True by (simp add: csv_loop_step [of long_bits fp m s st])
  next
    case False
    then have fl: "file_lines 128 ?rest = ?l # file_lines 128 (drop (fptr ?fp') c)"
      by (simp add: file_lines.simps [of 128 ?rest] add.commute)
    show ?thesis
    proof (cases "record_count s < m")
      case True
      have p: "files ?st' (fname ?fp') = Some c" "script ?st' = []"
        using "1.prems" by simp_all
      have ih: "record_count (fst (csv_loop long_bits ?fp' m (csv_line long_bits ?l s) ?st')) =
         (if record_count (csv_line long_bits ?l s) < m
          then min m (record_count (csv_line long_bits ?l s) +
                 int (length (filter two_tokens (file_lines 128 (drop (fptr ?fp') c)))))
          else record_count (csv_line long_bits ?l s))"
        using "1.IH" [of "Some ?l" "(?fp', ?st')" ?l ?fp' ?st'] g False True p by simp
      have "csv_loop long_bits fp m s st = csv_loop long_bits ?fp' m (csv_line long_bits ?l s) ?st'"
        using g False True by (simp add: csv_loop_step [of long_bits fp m s st])
      then show ?thesis using ih fl True by (auto simp: csv_line_count)
    next
      case False
      then show ?thesis using g by (simp add: csv_loop_step [of long_bits fp m s st])
    qed
  qed
qed

lemma sd_read_csv_state:
  "snd (fst (sd_read_csv long_bits filename recs m st)) =
     (if fst (fst (f_open filename FA_READ st)) \<noteq> FR_OK
      then \<lparr>records = recs, record_count = 0, written = []\<rparr>
      else fst (csv_loop long_bits (snd (fst (f_open filename FA_READ st))) m
                  \<lparr>records = recs, record_count = 0, written = []\<rparr> (snd (f_open filename FA_READ st))))"
  by (simp add: sd_read_csv_def Let_def split: prod.splits)

lemma sd_read_csv_result:
  "fst (fst (sd_read_csv long_bits filename recs m st)) = fst (fst (f_open filename FA_READ st))"
  by (simp add: sd_read_csv_def Let_def split: prod.splits)

text \<open>
  C3 as stated fails: of the example's three lines each has a first token, and the
  count returned with \<open>max_records = 3\<close> is 2.
\<close>

theorem csv_count_counterexample:
  "fst (fst (sd_read_csv 32 ''d.csv'' sevens 3 csv_volume)) = FR_OK \<and>
   length (file_lines 128 csv_example) = 3 \<and>
   length (filter one_token (file_lines 128 csv_example)) = 3 \<and>
   record_count (snd (fst (sd_read_csv 32 ''d.csv'' sevens 3 csv_volume))) = 2"
  by code_simp

text \<open>
  C3, amended. When no library call fails and \<open>max_records\<close> is not less than the
  number of lines with a first and a second token, \<open>sd_read_csv\<close> succeeds and the
  count it returns is that number. A line with one token only has the token copied into
  \<open>field1\<close> of the record at the current count, and the count stays as it is.
\<close>

theorem csv_count_two_tokens:
  "(files st filename = Some content \<longrightarrow> script st = [] \<longrightarrow>
      int (length (filter two_tokens (file_lines 128 content))) \<le> max_records \<longrightarrow>
        fst (fst (sd_read_csv long_bits filename recs max_records st)) = FR_OK \<and>
        record_count (snd (fst (sd_read_csv long_bits filename recs max_records st))) =
          int (length (filter two_tokens (file_lines 128 content)))) \<and>
   (strtok (c_str line) = Some (token, rest) \<longrightarrow> strtok rest = None \<longrightarrow>
      record_count (csv_line long_bits line s) = record_count s \<and>
      field1 (records (csv_line long_bits line s) (record_count s)) = strncpy token 32)"
proof (intro conjI impI)
  assume f: "files st filename = Some content" "script st = []"
    and m: "int (length (filter two_tokens (file_lines 128 content))) \<le> max_records"
  let ?st1 = "st\<lparr>calls := calls st @ [Call_open filename FA_READ]\<rparr>"
  let ?fp = "\<lparr>fname = filename, fptr = 0\<rparr>"
  have o: "f_open filename FA_READ st = ((FR_OK, ?fp), ?st1)"
    using f by (simp add: f_open_def lib_step_def)
  show "fst (fst (sd_read_csv long_bits filename recs max_records st)) = FR_OK"
    using o by (simp add: sd_read_csv_result)
  have "record_count (fst (csv_loop long_bits ?fp max_records \<lparr>records = recs, record_count = 0, written = []\<rparr> ?st1)) =
      (if 0 < max_records
       then min max_records (int (length (filter two_tokens (file_lines 128 content))))
       else 0)"
    using csv_loop_count [of ?st1 ?fp content long_bits max_records "\<lparr>records = recs, record_count = 0, written = []\<rparr>"] f
    by simp
  also have "\<dots> = int (length (filter two_tokens (file_lines 128 content)))"
  proof -
    define n where "n = length (filter two_tokens (file_lines 128 content))"
    have "int n \<le> max_records" using m by (simp add: n_def)
    then have "(if 0 < max_records then min max_records (int n) else 0) = int n" by auto
    then show ?thesis unfolding n_def .
  qed
  finally show "record_count (snd (fst (sd_read_csv long_bits filename recs max_records st))) =
          int (length (filter two_tokens (file_lines 128 content)))"
    using o by (simp add: sd_read_csv_state)
next
  assume t: "strtok (c_str line) = Some (token, rest)" "strtok rest = None"
  then show "record_count (csv_line long_bits line s) = record_count s"
    by (simp add: csv_line_def csv_setters)
  from t show "field1 (records (csv_line long_bits line s) (record_count s)) = strncpy token 32"
    by (simp add: csv_line_def csv_setters)
qed

theorem csv_count_two_tokens_witness:
  "files csv_volume ''d.csv'' = Some csv_example \<and> script csv_volume = [] \<and>
   int (length (filter two_tokens (file_lines 128 csv_example))) \<le> 3 \<and>
   fst (fst (sd_read_csv 32 ''d.csv'' sevens 3 csv_volume)) = FR_OK \<and>
   record_count (snd (fst (sd_read_csv 32 ''d.csv'' sevens 3 csv_volume))) = 2 \<and>
   strtok (c_str (''a'' @ [CHR 0x0A])) = Some (''a'' @ [CHR 0x0A], []) \<and> strtok [] = None \<and>
   record_count (csv_line 32 (''a'' @ [CHR 0x0A]) sevens_state) = record_count sevens_state \<and>
   field1 (records (csv_line 32 (''a'' @ [CHR 0x0A]) sevens_state) (record_count sevens_state)) =
     ''a'' @ [CHR 0x0A] @ replicate 30 NUL"
proof -
  have f: "files csv_volume ''d.csv'' = Some csv_example" "script csv_volume = []"
    by (simp_all add: csv_volume_def)
  have n: "int (length (filter two_tokens (file_lines 128 csv_example))) = 2"
    by code_simp
  have t: "strtok (c_str (''a'' @ [CHR 0x0A])) = Some (''a'' @ [CHR 0x0A], [])" "strtok [] = None"
    by code_simp+
  have c: "strncpy (''a'' @ [CHR 0x0A]) 32 = ''a'' @ [CHR 0x0A] @ replicate 30 NUL"
    by code_simp
  from csv_count_two_tokens [of csv_volume "''d.csv''" csv_example 3 32 sevens
      "''a'' @ [CHR 0x0A]" "''a'' @ [CHR 0x0A]" "[]" sevens_state]
  show ?thesis using f n t c by simp
qed

text \<open>
  C4 as stated fails: the example's second line has exactly two tokens, the record's
  value was 7 before the call and is 0 after it.
\<close>

theorem csv_value_counterexample:
  "file_lines 128 csv_example ! 1 = ''a,b'' @ [CHR 0x0A] \<and>
   strtok (c_str (''a,b'' @ [CHR 0x0A])) = Some (''a'', ''b'' @ [CHR 0x0A]) \<and>
   strtok (''b'' @ [CHR 0x0A]) = Some (''b'' @ [CHR 0x0A], []) \<and>
   strtok [] = None \<and>
   csv_value (sevens 1) = 7 \<and>
   csv_value (records (snd (fst (sd_read_csv 32 ''d.csv'' sevens 3 csv_volume))) 1) = 0"
  by code_simp

lemma atoi_in_range:
  assumes "32 \<le> long_bits" and "- (2 ^ 31) \<le> decimal s" and "decimal s < 2 ^ 31"
  shows "sint (atoi long_bits s) = decimal s"
proof -
  have "(2::int) ^ 31 \<le> 2 ^ (long_bits - 1)"
    using assms(1) by (intro power_increasing) auto
  then have "strtol long_bits s = decimal s"
    using assms(2,3) by (simp add: strtol_def)
  moreover have "sint (word_of_int (decimal s) :: 32 word) = decimal s"
    using assms(2,3) by (simp add: sint_sbintrunc' signed_take_bit_int_eq_self)
  ultimately show ?thesis by (simp add: atoi_def)
qed

text \<open>
  C4, amended. On a line with a first and a second token the loop body assigns the
  record's value and counts the record: the value is 0 when there is no third token,
  and \<open>atoi\<close> of the third token when there is one, which is the token's number
  whenever that number fits the 32-bit \<open>int\<close>. On a line without a second token it
  assigns no record's value.
\<close>

theorem csv_value_assigned:
  "(strtok (c_str line) = Some (token1, rest1) \<longrightarrow> strtok rest1 = Some (token2, rest2) \<longrightarrow>
      record_count (csv_line long_bits line s) = record_count s + 1 \<and>
      (strtok rest2 = None \<longrightarrow> csv_value (records (csv_line long_bits line s) (record_count s)) = 0) \<and>
      (strtok rest2 = Some (token3, rest3) \<longrightarrow>
         csv_value (records (csv_line long_bits line s) (record_count s)) = atoi long_bits token3 \<and>
         (32 \<le> long_bits \<longrightarrow> - (2 ^ 31) \<le> decimal token3 \<longrightarrow> decimal token3 < 2 ^ 31 \<longrightarrow>
            sint (csv_value (records (csv_line long_bits line s) (record_count s))) = decimal token3))) \<and>
   (\<not> two_tokens line \<longrightarrow> csv_value (records (csv_line long_bits line s) i) = csv_value (records s i))"
proof (intro conjI impI)
  assume t: "strtok (c_str line) = Some (token1, rest1)" "strtok rest1 = Some (token2, rest2)"
  then show "record_count (csv_line long_bits line s) = record_count s + 1"
    by (simp add: csv_line_def csv_setters Let_def split: option.splits)
  {
    assume "strtok rest2 = None"
    with t show "csv_value (records (csv_line long_bits line s) (record_count s)) = 0"
      by (simp add: csv_line_def csv_setters Let_def)
  }
  {
    assume "strtok rest2 = Some (token3, rest3)"
    with t show v: "csv_value (records (csv_line long_bits line s) (record_count s)) = atoi long_bits token3"
      by (simp add: csv_line_def csv_setters Let_def)
    assume "32 \<le> long_bits" "- (2 ^ 31) \<le> decimal token3" "decimal token3 < 2 ^ 31"
    then show "sint (csv_value (records (csv_line long_bits line s) (record_count s))) = decimal token3"
      unfolding v by (rule atoi_in_range)
  }
next
  assume "\<not> two_tokens line"
  then show "csv_value (records (csv_line long_bits line s) i) = csv_value (records s i)"
    by (auto simp: csv_line_def two_tokens_def csv_setters Let_def split: option.splits prod.splits)
qed

theorem csv_value_assigned_witness:
  "strtok (c_str (''a,b'' @ [CHR 0x0A])) = Some (''a'', ''b'' @ [CHR 0x0A]) \<and>
   strtok (''b'' @ [CHR 0x0A]) = Some (''b'' @ [CHR 0x0A], []) \<and>
   strtok [] = None \<and>
   csv_value (records sevens_state 0) = 7 \<and>
   record_count (csv_line 32 (''a,b'' @ [CHR 0x0A]) sevens_state) = 1 \<and>
   csv_value (records (csv_line 32 (''a,b'' @ [CHR 0x0A]) sevens_state) 0) = 0 \<and>
   strtok (c_str (''a,b,-3'' @ [CHR 0x0A])) = Some (''a'', ''b,-3'' @ [CHR 0x0A]) \<and>
   strtok (''b,-3'' @ [CHR 0x0A]) = Some (''b'', ''-3'' @ [CHR 0x0A]) \<and>
   strtok (''-3'' @ [CHR 0x0A]) = Some (''-3'' @ [CHR 0x0A], []) \<and>
   decimal (''-3'' @ [CHR 0x0A]) = - 3 \<and>
   sint (csv_value (records (csv_line 32 (''a,b,-3'' @ [CHR 0x0A]) sevens_state) 0)) = - 3 \<and>
   \<not> two_tokens (''a'' @ [CHR 0x0A]) \<and>
   csv_value (records (csv_line 32 (''a'' @ [CHR 0x0A]) sevens_state) 0) = 7 \<and>
   atoi 64 ''99999999999'' = 1215752191 \<and>
   atoi 32 ''99999999999'' = 2147483647"
proof -
  have a: "strtok (c_str (''a,b'' @ [CHR 0x0A])) = Some (''a'', ''b'' @ [CHR 0x0A])"
    "strtok (''b'' @ [CHR 0x0A]) = Some (''b'' @ [CHR 0x0A], [])" "strtok [] = None"
    by code_simp+
  have b: "strtok (c_str (''a,b,-3'' @ [CHR 0x0A])) = Some (''a'', ''b,-3'' @ [CHR 0x0A])"
    "strtok (''b,-3'' @ [CHR 0x0A]) = Some (''b'', ''-3'' @ [CHR 0x0A])"
    "strtok (''-3'' @ [CHR 0x0A]) = Some (''-3'' @ [CHR 0x0A], [])"
    by code_simp+
  have c: "\<not> two_tokens (''a'' @ [CHR 0x0A])" "decimal (''-3'' @ [CHR 0x0A]) = - 3"
    "csv_value (records sevens_state 0) = 7" "record_count sevens_state = 0"
    by code_simp+
  have d: "atoi 64 ''99999999999'' = 1215752191" "atoi 32 ''99999999999'' = 2147483647"
    "sint (atoi 32 (''-3'' @ [CHR 0x0A])) = - 3"
    by code_simp+
  from csv_value_assigned [where line = "''a,b'' @ [CHR 0x0A]" and ?token1.0 = "''a''"
        and ?rest1.0 = "''b'' @ [CHR 0x0A]" and ?token2.0 = "''b'' @ [CHR 0x0A]" and ?rest2.0 = "[]"
        and long_bits = 32 and s = sevens_state and ?token3.0 = "[]" and ?rest3.0 = "[]" and i = 0]
      csv_value_assigned [where line = "''a,b,-3'' @ [CHR 0x0A]" and ?token1.0 = "''a''"
        and ?rest1.0 = "''b,-3'' @ [CHR 0x0A]" and ?token2.0 = "''b''" and ?rest2.0 = "''-3'' @ [CHR 0x0A]"
        and long_bits = 32 and s = sevens_state and ?token3.0 = "''-3'' @ [CHR 0x0A]" and ?rest3.0 = "[]" and i = 0]
      csv_value_assigned [where line = "''a'' @ [CHR 0x0A]" and ?token1.0 = "[]"
        and ?rest1.0 = "[]" and ?token2.0 = "[]" and ?rest2.0 = "[]"
        and long_bits = 32 and s = sevens_state and ?token3.0 = "[]" and ?rest3.0 = "[]" and i = 0]
  show ?thesis using a b c d by simp
qed

text \<open>
  C8 as stated fails for a negative \<open>max_records\<close>: the count returned is 0, which
  exceeds \<open>max_records = -1\<close>.
\<close>

theorem csv_count_negative_max_counterexample:
  "record_count (snd (fst (sd_read_csv 32 ''d.csv'' sevens (- 1) csv_volume))) = 0 \<and>
   \<not> record_count (snd (fst (sd_read_csv 32 ''d.csv'' sevens (- 1) csv_volume))) \<le> - 1"
  by code_simp

text \<open>
  C8, amended. For every file, volume and \<open>max_records\<close>: \<open>sd_read_csv\<close> stores
  only into records at indices from 0 up to, and without, \<open>max_records\<close>; the records
  at indices from \<open>max_records\<close> on are as the caller left them; and the count
  returned is at least 0 and at most \<open>max_records\<close>, or 0 when \<open>max_records\<close> is
  negative.
\<close>

theorem csv_within_max_records:
  "(\<forall>i\<in>set (written (snd (fst (sd_read_csv long_bits filename recs max_records st)))). 0 \<le> i \<and> i < max_records) \<and>
   (\<forall>i. max_records \<le> i \<longrightarrow> records (snd (fst (sd_read_csv long_bits filename recs max_records st))) i = recs i) \<and>
   0 \<le> record_count (snd (fst (sd_read_csv long_bits filename recs max_records st))) \<and>
   record_count (snd (fst (sd_read_csv long_bits filename recs max_records st))) \<le> max 0 max_records"
proof (cases "fst (fst (f_open filename FA_READ st)) \<noteq> FR_OK")
  case True
  then show ?thesis by (simp add: sd_read_csv_state)
next
  case False
  let ?init = "\<lparr>records = recs, record_count = 0, written = []\<rparr>"
  let ?fin = "fst (csv_loop long_bits (snd (fst (f_open filename FA_READ st))) max_records ?init
                  (snd (f_open filename FA_READ st)))"
  have s: "snd (fst (sd_read_csv long_bits filename recs max_records st)) = ?fin"
    using False by (simp add: sd_read_csv_state)
  have "csv_inv max_records ?init ?fin" by (rule csv_loop_inv)
  then have "record_count ?init \<le> record_count ?fin"
    and "record_count ?fin \<le> max_records \<or> record_count ?fin = record_count ?init"
    and "\<exists>new. written ?fin = written ?init @ new \<and> (\<forall>i\<in>set new. record_count ?init \<le> i \<and> i < max_records)"
    and "\<forall>i. i < record_count ?init \<or> max_records \<le> i \<longrightarrow> records ?fin i = records ?init i"
    unfolding csv_inv_def by blast+
  then show ?thesis unfolding s by auto
qed

theorem csv_within_max_records_witness:
  "written (snd (fst (sd_read_csv 32 ''d.csv'' sevens 1 csv_volume))) = [0, 0, 0] \<and>
   record_count (snd (fst (sd_read_csv 32 ''d.csv'' sevens 1 csv_volume))) = 1 \<and>
   records (snd (fst (sd_read_csv 32 ''d.csv'' sevens 1 csv_volume))) 1 = sevens 1"
proof -
  have w: "written (snd (fst (sd_read_csv 32 ''d.csv'' sevens 1 csv_volume))) = [0, 0, 0]"
    and c: "record_count (snd (fst (sd_read_csv 32 ''d.csv'' sevens 1 csv_volume))) = 1"
    by code_simp+
  from csv_within_max_records [of 32 "''d.csv''" sevens 1 csv_volume]
  show ?thesis using w c by simp
qed

lemma strtok_subset:
  assumes "strtok s = Some (token, rest)"
  shows "set token \<subseteq> set s \<and> set rest \<subseteq> set s"
proof -
  let ?s1 = "dropWhile (\<lambda>c. c = CHR '','') s"
  have t: "token = takeWhile (\<lambda>c. c \<noteq> CHR '','') ?s1"
    and r: "rest = drop 1 (dropWhile (\<lambda>c. c \<noteq> CHR '','') ?s1)"
    using assms by (auto simp: strtok_def Let_def split: if_splits)
  have s1: "set ?s1 \<subseteq> set s" by (rule set_dropWhileD [THEN subsetI]) 
  have "set token \<subseteq> set ?s1" unfolding t by (auto dest: set_takeWhileD)
  moreover have "set rest \<subseteq> set ?s1"
    unfolding r by (auto dest!: in_set_dropD set_dropWhileD)
  ultimately show ?thesis using s1 by blast
qed

lemma strncpy_length: "length (strncpy src n) = n"
  by (simp add: strncpy_def)

lemma strncpy_long:
  assumes "n \<le> length src" and "NUL \<notin> set src"
  shows "strncpy src n = take n src \<and> NUL \<notin> set (strncpy src n)"
  using assms by (auto simp: strncpy_def dest: in_set_takeD)

lemma strncpy_short:
  assumes "length src < n"
  shows "strncpy src n ! length src = NUL \<and> take (length src) (strncpy src n) = src"
  using assms by (simp add: strncpy_def nth_append)

text \<open>
  C10. A token copied into \<open>field1\<close> or \<open>field2\<close> fills the field's 32 bytes and
  no more. A token of 32 bytes or more leaves its first 32 bytes and no NUL byte in the
  field; a shorter token is followed by a NUL byte. A line without a second token
  leaves \<open>field2\<close> as it was.
\<close>

theorem csv_fields_bounded_unterminated:
  assumes "strtok (c_str line) = Some (token1, rest1)"
  shows "length (field1 (records (csv_line long_bits line s) (record_count s))) = 32 \<and>
         (32 \<le> length token1 \<longrightarrow>
            field1 (records (csv_line long_bits line s) (record_count s)) = take 32 token1 \<and>
            NUL \<notin> set (field1 (records (csv_line long_bits line s) (record_count s)))) \<and>
         (length token1 < 32 \<longrightarrow>
            take (length token1) (field1 (records (csv_line long_bits line s) (record_count s))) = token1 \<and>
            field1 (records (csv_line long_bits line s) (record_count s)) ! length token1 = NUL) \<and>
         (strtok rest1 = Some (token2, rest2) \<longrightarrow>
            length (field2 (records (csv_line long_bits line s) (record_count s))) = 32 \<and>
            (32 \<le> length token2 \<longrightarrow>
               field2 (records (csv_line long_bits line s) (record_count s)) = take 32 token2 \<and>
               NUL \<notin> set (field2 (records (csv_line long_bits line s) (record_count s)))) \<and>
            (length token2 < 32 \<longrightarrow>
               take (length token2) (field2 (records (csv_line long_bits line s) (record_count s))) = token2 \<and>
               field2 (records (csv_line long_bits line s) (record_count s)) ! length token2 = NUL)) \<and>
         (strtok rest1 = None \<longrightarrow>
            field2 (records (csv_line long_bits line s) (record_count s)) = field2 (records s (record_count s)))"
proof -
  have f1: "field1 (records (csv_line long_bits line s) (record_count s)) = strncpy token1 32"
    using assms by (simp add: csv_line_def csv_setters Let_def split: option.splits prod.splits)
  have n1: "NUL \<notin> set token1" "NUL \<notin> set rest1"
    using strtok_subset [OF assms] c_str_no_NUL [of line] by auto
  have a: "length (field1 (records (csv_line long_bits line s) (record_count s))) = 32"
    by (simp add: f1 strncpy_length)
  have b: "32 \<le> length token1 \<longrightarrow>
            field1 (records (csv_line long_bits line s) (record_count s)) = take 32 token1 \<and>
            NUL \<notin> set (field1 (records (csv_line long_bits line s) (record_count s)))"
    using strncpy_long [of 32 token1] n1 by (auto simp: f1)
  have c: "length token1 < 32 \<longrightarrow>
            take (length token1) (field1 (records (csv_line long_bits line s) (record_count s))) = token1 \<and>
            field1 (records (csv_line long_bits line s) (record_count s)) ! length token1 = NUL"
    using strncpy_short [of token1 32] by (simp add: f1)
  have d: "strtok rest1 = Some (token2, rest2) \<longrightarrow>
            length (field2 (records (csv_line long_bits line s) (record_count s))) = 32 \<and>
            (32 \<le> length token2 \<longrightarrow>
               field2 (records (csv_line long_bits line s) (record_count s)) = take 32 token2 \<and>
               NUL \<notin> set (field2 (records (csv_line long_bits line s) (record_count s)))) \<and>
            (length token2 < 32 \<longrightarrow>
               take (length token2) (field2 (records (csv_line long_bits line s) (record_count s))) = token2 \<and>
               field2 (records (csv_line long_bits line s) (record_count s)) ! length token2 = NUL)"
  proof
    assume t2: "strtok rest1 = Some (token2, rest2)"
    have f2: "field2 (records (csv_line long_bits line s) (record_count s)) = strncpy token2 32"
      using assms t2 by (simp add: csv_line_def csv_setters Let_def split: option.splits prod.splits)
    have n2: "NUL \<notin> set token2" using strtok_subset [OF t2] n1 by auto
    show "length (field2 (records (csv_line long_bits line s) (record_count s))) = 32 \<and>
            (32 \<le> length token2 \<longrightarrow>
               field2 (records (csv_line long_bits line s) (record_count s)) = take 32 token2 \<and>
               NUL \<notin> set (field2 (records (csv_line long_bits line s) (record_count s)))) \<and>
            (length token2 < 32 \<longrightarrow>
               take (length token2) (field2 (records (csv_line long_bits line s) (record_count s))) = token2 \<and>
               field2 (records (csv_line long_bits line s) (record_count s)) ! length token2 = NUL)"
      using strncpy_long [of 32 token2] strncpy_short [of token2 32] n2
      by (auto simp: f2 strncpy_length)
  qed
  have e: "strtok rest1 = None \<longrightarrow>
            field2 (records (csv_line long_bits line s) (record_count s)) = field2 (records s (record_count s))"
    using assms by (simp add: csv_line_def csv_setters Let_def)
  show ?thesis using a b c d e by blast
qed

theorem csv_fields_bounded_unterminated_witness:
  "strtok (c_str long_line) = Some (replicate 40 (CHR ''z''), ''k'') \<and>
   strtok ''k'' = Some (''k'', []) \<and>
   32 \<le> length (replicate 40 (CHR ''z'')) \<and>
   length (field1 (records (csv_line 32 long_line sevens_state) (record_count sevens_state))) = 32 \<and>
   field1 (records (csv_line 32 long_line sevens_state) (record_count sevens_state)) = replicate 32 (CHR ''z'') \<and>
   NUL \<notin> set (field1 (records (csv_line 32 long_line sevens_state) (record_count sevens_state))) \<and>
   length (field2 (records (csv_line 32 long_line sevens_state) (record_count sevens_state))) = 32 \<and>
   field2 (records (csv_line 32 long_line sevens_state) (record_count sevens_state)) ! 1 = NUL"
proof -
  have t: "strtok (c_str long_line) = Some (replicate 40 (CHR ''z''), ''k'')"
    "strtok ''k'' = Some (''k'', [])"
    by code_simp+
  have l: "take 32 (replicate 40 (CHR ''z'')) = replicate 32 (CHR ''z'')" by simp
  have z: "NUL \<noteq> CHR ''z''" by (simp add: NUL_def)
  from csv_fields_bounded_unterminated [OF t(1), of 32 sevens_state "''k''" "[]"]
  show ?thesis using t l z by simp
qed

end
